theory Spec2Isabelle
  imports
    Main
    "HOL-Library.FSet"
    "HOL-Library.Mapping"
    "HOL-Library.AList_Mapping"
    "HOL-Library.Char_ord"
begin

section \<open>Data model of the page component\<close>

text \<open>
  The component \<open>Home\<close> keeps its state in React hooks. The model below keeps the
  hooks the page-selection logic reads or writes: \<open>files\<close>, \<open>trimFile\<close>, \<open>cutPoints\<close>,
  \<open>deletedPages\<close>, \<open>rotations\<close> and \<open>error\<close>. Flags that only drive the display
  (\<open>isMerging\<close>, \<open>isProcessing\<close>, \<open>isDragging\<close>, \<open>viewerPage\<close>) are left out.

  A browser \<open>File\<close> is opaque to the component apart from its name, its MIME type and
  what \<open>PDFDocument.load\<close> makes of its bytes. The decoder is an external library; its
  outcome on a file is recorded in \<open>file_doc\<close>: \<open>None\<close> when loading throws, \<open>Some n\<close>
  when it yields a document of \<open>n\<close> pages.
\<close>

record File =
  file_name :: string
  file_type :: string
  file_doc :: "nat option"

text \<open>\<open>interface PDFFile { id; file; name; pageCount: number | null }\<close>\<close>

record PDFFile =
  pdf_id :: string
  pdf_file :: File
  pdf_name :: string
  pdf_pageCount :: "nat option"

text \<open>\<open>interface TrimFile { file; name; pageCount: number; thumbnails }\<close>; the thumbnails
  are previews only and are not modelled.\<close>

record TrimFile =
  trim_file :: File
  trim_name :: string
  trim_pageCount :: nat

record state =
  files :: "PDFFile list"
  trimFile :: "TrimFile option"
  cutPoints :: "nat list"
  deletedPages :: "nat fset"
  rotations :: "(nat, nat) mapping"
  error :: "string option"

definition MAX_FILES :: nat where
  "MAX_FILES = 5"

definition MAX_CUTS :: nat where
  "MAX_CUTS = 4"

text \<open>\<open>getPageCount\<close>: the page count of the decoded file, \<open>null\<close> when decoding throws.\<close>

definition getPageCount :: "File \<Rightarrow> nat option" where
  "getPageCount f = file_doc f"

section \<open>Partition step of \<open>processTrim\<close>\<close>

text \<open>
  \<open>Array.from({ length: pageCount }, (_, i) => i + 1).filter(p => !deletedPages.has(p))\<close>
\<close>

definition activePageNums :: "nat \<Rightarrow> nat fset \<Rightarrow> nat list" where
  "activePageNums pageCount deleted =
     filter (\<lambda>p. p |\<notin>| deleted) (map (\<lambda>i. i + 1) [0..<pageCount])"

text \<open>
  The loop over \<open>activePageNums\<close>: the page is pushed on \<open>currentRange\<close>; when it is one
  of the cut points a copy of \<open>currentRange\<close> is pushed on \<open>ranges\<close> and \<open>currentRange\<close>
  restarts empty. The function returns both variables as they stand after the loop.
\<close>

fun rangesLoop :: "nat list \<Rightarrow> nat list \<Rightarrow> nat list list \<Rightarrow> nat list
    \<Rightarrow> nat list list \<times> nat list" where
  "rangesLoop sortedCuts [] ranges currentRange = (ranges, currentRange)"
| "rangesLoop sortedCuts (pageNum # rest) ranges currentRange =
     (if List.member sortedCuts pageNum
      then rangesLoop sortedCuts rest (ranges @ [currentRange @ [pageNum]]) []
      else rangesLoop sortedCuts rest ranges (currentRange @ [pageNum]))"

text \<open>Lines 333 to 346: sort the cuts, run the loop, push a non-empty trailing range.\<close>

definition buildRanges :: "nat \<Rightarrow> nat list \<Rightarrow> nat fset \<Rightarrow> nat list list" where
  "buildRanges pageCount cuts deleted =
     (let sortedCuts = sort cuts;
          (ranges, currentRange) =
             rangesLoop sortedCuts (activePageNums pageCount deleted) [] []
      in if length currentRange > 0 then ranges @ [currentRange] else ranges)"

section \<open>Strings of the host language\<close>

text \<open>
  \<open>String.prototype.toLowerCase\<close> on the ASCII letters; file names are byte strings here,
  and none of the characters \<open>.\<close>, \<open>p\<close>, \<open>d\<close>, \<open>f\<close> is the lower case of a character
  outside ASCII, so the two tests below read the same on every name.
\<close>

definition toLowerCase_char :: "char \<Rightarrow> char" where
  "toLowerCase_char c =
     (if CHR ''A'' \<le> c \<and> c \<le> CHR ''Z'' then char_of (of_char c + (32::nat)) else c)"

definition toLowerCase :: "string \<Rightarrow> string" where
  "toLowerCase s = map toLowerCase_char s"

definition endsWith :: "string \<Rightarrow> string \<Rightarrow> bool" where
  "endsWith s t = (length t \<le> length s \<and> drop (length s - length t) s = t)"

text \<open>The filter of \<open>addFiles\<close>:
  \<open>f.type === 'application/pdf' || f.name.toLowerCase().endsWith('.pdf')\<close>\<close>

definition isPdf :: "File \<Rightarrow> bool" where
  "isPdf f = (file_type f = ''application/pdf'' \<or> endsWith (toLowerCase (file_name f)) ''.pdf'')"

text \<open>\<open>name.replace(/\.pdf$/i, '')\<close>: a final \<open>.pdf\<close>, in any case, is cut off.\<close>

definition baseName :: "string \<Rightarrow> string" where
  "baseName name =
     (if endsWith (toLowerCase name) ''.pdf'' then take (length name - 4) name else name)"

text \<open>Template literals print a number in decimal.\<close>

definition digit_char :: "nat \<Rightarrow> char" where
  "digit_char d = char_of (48 + d)"

fun decimal :: "nat \<Rightarrow> string" where
  "decimal n = (if n < 10 then [digit_char n] else decimal (n div 10) @ [digit_char (n mod 10)])"

declare decimal.simps [simp del]

definition decimal_int :: "int \<Rightarrow> string" where
  "decimal_int i = (if i < 0 then CHR ''-'' # decimal (nat (- i)) else decimal (nat i))"

text \<open>\<open>Array.prototype.slice(0, end)\<close>: a negative \<open>end\<close> counts from the end of the array.\<close>

definition slice0 :: "'a list \<Rightarrow> int \<Rightarrow> 'a list" where
  "slice0 xs e = (if e < 0 then take (nat (int (length xs) + e)) xs else take (nat e) xs)"

section \<open>Merge mode\<close>

text \<open>
  \<open>addFiles\<close>. The identifiers come from the clock and the random generator; \<open>newId i\<close>
  stands for the identifier drawn for the \<open>i\<close>-th file that is processed.
\<close>

definition processFile :: "(nat \<Rightarrow> string) \<Rightarrow> nat \<times> File \<Rightarrow> PDFFile" where
  "processFile newId p =
     \<lparr>pdf_id = newId (fst p), pdf_file = snd p, pdf_name = file_name (snd p),
      pdf_pageCount = getPageCount (snd p)\<rparr>"

definition slotsMessage :: "int \<Rightarrow> string" where
  "slotsMessage availableSlots =
     ''Only '' @ decimal_int availableSlots @ '' more file''
       @ (if availableSlots = 1 then [] else ''s'') @ '' can be added''"

definition addFiles :: "(nat \<Rightarrow> string) \<Rightarrow> state \<Rightarrow> File list \<Rightarrow> state" where
  "addFiles newId st newFiles =
     (let pdfFiles = filter isPdf newFiles in
      if length pdfFiles = 0 then st\<lparr>error := Some ''Only PDF files are accepted''\<rparr>
      else
        let availableSlots = int MAX_FILES - int (length (files st));
            filesToAdd = slice0 pdfFiles availableSlots;
            err = (if int (length pdfFiles) > availableSlots
                   then Some (slotsMessage availableSlots) else None);
            processedFiles = map (processFile newId) (enumerate 0 filesToAdd)
        in st\<lparr>error := err, files := files st @ processedFiles\<rparr>)"

text \<open>\<open>removeFile\<close>\<close>

definition removeFile :: "state \<Rightarrow> string \<Rightarrow> state" where
  "removeFile st i = st\<lparr>files := filter (\<lambda>f. pdf_id f \<noteq> i) (files st), error := None\<rparr>"

text \<open>
  An artifact handed to the browser: the name given to \<open>link.download\<close> and the pages
  added to the new document, in the order of the \<open>addPage\<close> calls.
\<close>

record 'p artifact =
  download :: string
  pages :: "'p list"

text \<open>
  The loop of \<open>mergePDFs\<close> over the queue. Each file is loaded again; when loading throws
  the loop is left through the \<open>catch\<close> (\<open>None\<close>). Otherwise the pages at
  \<open>pdf.getPageIndices()\<close>, that is \<open>0 .. n - 1\<close>, are copied and added in that order. A
  page of the merged document is recorded as the position of its source in the queue and
  its index in that source.
\<close>

fun mergeLoop :: "PDFFile list \<Rightarrow> nat \<Rightarrow> (nat \<times> nat) list \<Rightarrow> (nat \<times> nat) list option" where
  "mergeLoop [] k merged = Some merged"
| "mergeLoop (pdfFile # rest) k merged =
     (case file_doc (pdf_file pdfFile) of
        None \<Rightarrow> None
      | Some n \<Rightarrow> mergeLoop rest (k + 1) (merged @ map (\<lambda>i. (k, i)) [0..<n]))"

text \<open>The pages copied from the source at position \<open>fst jn\<close>, which has \<open>snd jn\<close> pages.\<close>

definition copiedPages :: "nat \<times> nat \<Rightarrow> (nat \<times> nat) list" where
  "copiedPages jn = map (\<lambda>i. (fst jn, i)) [0..<snd jn]"

text \<open>
  \<open>mergePDFs\<close> returns the state it leaves (after the delayed reset on success) and the
  downloads it triggered. \<open>now\<close> is the clock reading used in the file name.
\<close>

definition mergeFailed :: "state \<Rightarrow> state" where
  "mergeFailed st =
     st\<lparr>error := Some ''Failed to merge PDFs. Some files may be corrupted or encrypted.''\<rparr>"

definition mergePDFs :: "nat \<Rightarrow> state \<Rightarrow> state \<times> (nat \<times> nat) artifact list" where
  "mergePDFs now st =
     (if length (files st) < 2 then (st, [])
      else case mergeLoop (files st) 0 [] of
        None \<Rightarrow> (mergeFailed st, [])
      | Some merged \<Rightarrow>
          (st\<lparr>error := None, files := []\<rparr>,
           [\<lparr>download = ''merged-'' @ decimal now @ ''.pdf'', pages = merged\<rparr>]))"

section \<open>Trim mode: the edits\<close>

text \<open>\<open>toggleDeletePage\<close>; restoring a page leaves the message as it is.\<close>

definition toggleDeletePage :: "state \<Rightarrow> nat \<Rightarrow> state" where
  "toggleDeletePage st pageNum =
     (if pageNum |\<in>| deletedPages st
      then st\<lparr>deletedPages := deletedPages st |-| {|pageNum|}\<rparr>
      else if (case trimFile st of
                 None \<Rightarrow> False
               | Some tf \<Rightarrow> int (fcard (deletedPages st)) \<ge> int (trim_pageCount tf) - 1)
      then st\<lparr>error := Some ''Cannot delete all pages''\<rparr>
      else st\<lparr>deletedPages := finsert pageNum (deletedPages st), error := None\<rparr>)"

text \<open>\<open>rotations.get(pageNum) || 0\<close>\<close>

definition rotationOf :: "(nat, nat) mapping \<Rightarrow> nat \<Rightarrow> nat" where
  "rotationOf rot pageNum = (case Mapping.lookup rot pageNum of None \<Rightarrow> 0 | Some r \<Rightarrow> r)"

text \<open>The update that \<open>rotatePage\<close> applies to the rotation map, and \<open>rotatePage\<close> itself.\<close>

definition rotateEntry :: "(nat, nat) mapping \<Rightarrow> nat \<Rightarrow> (nat, nat) mapping" where
  "rotateEntry prev pageNum =
     (let currentRotation = rotationOf prev pageNum;
          newRotation = (currentRotation + 90) mod 360
      in if newRotation = 0 then Mapping.delete pageNum prev
         else Mapping.update pageNum newRotation prev)"

definition rotatePage :: "state \<Rightarrow> nat \<Rightarrow> state" where
  "rotatePage st pageNum = st\<lparr>rotations := rotateEntry (rotations st) pageNum\<rparr>"

text \<open>
  The invariant of the rotation map in the data model: every stored rotation is a
  quarter, half or three-quarter turn, so \<open>0\<close> is never stored.
\<close>

definition quarterTurns :: "(nat, nat) mapping \<Rightarrow> bool" where
  "quarterTurns m = (\<forall>q \<in> Mapping.keys m. rotationOf m q \<in> {90, 180, 270})"

definition hasModifications :: "state \<Rightarrow> bool" where
  "hasModifications st =
     (fcard (deletedPages st) > 0 \<or> Mapping.size (rotations st) > 0 \<or> length (cutPoints st) > 0)"

section \<open>Trim mode: \<open>processTrim\<close>\<close>

text \<open>
  Building one output document from a list of page numbers: the pages at the indices
  \<open>p - 1\<close> are copied from the source, which throws when an index is not a page of the
  source (\<open>None\<close>); each copy gets \<open>setRotation\<close> when its rotation is not \<open>0\<close> and is
  added. A page of the output is recorded as its index in the source and the rotation
  set on it, if any.
\<close>

definition copyPage :: "(nat, nat) mapping \<Rightarrow> nat \<Rightarrow> nat \<times> nat option" where
  "copyPage rot originalPageNum =
     (let rotation = rotationOf rot originalPageNum
      in (originalPageNum - 1, if rotation \<noteq> 0 then Some rotation else None))"

definition newPdf :: "nat \<Rightarrow> (nat, nat) mapping \<Rightarrow> nat list \<Rightarrow> (nat \<times> nat option) list option" where
  "newPdf sourcePages rot pageNums =
     (if list_all (\<lambda>p. p - 1 < sourcePages) pageNums then Some (map (copyPage rot) pageNums)
      else None)"

text \<open>
  The loop over \<open>ranges\<close> (lines 348 to 380), started at index \<open>i\<close>: an empty range is
  skipped, any other is built and downloaded under the name with \<open>i + 1\<close>. The result is
  the downloads triggered and whether the loop ran to its end.
\<close>

fun emitParts :: "string \<Rightarrow> nat \<Rightarrow> (nat, nat) mapping \<Rightarrow> nat list list \<Rightarrow> nat
    \<Rightarrow> (nat \<times> nat option) artifact list \<times> bool" where
  "emitParts base sourcePages rot [] i = ([], True)"
| "emitParts base sourcePages rot (rangePages # rest) i =
     (if length rangePages = 0 then emitParts base sourcePages rot rest (i + 1)
      else case newPdf sourcePages rot rangePages of
        None \<Rightarrow> ([], False)
      | Some ps \<Rightarrow>
          (let (out, ok) = emitParts base sourcePages rot rest (i + 1)
           in (\<lparr>download = base @ ''-part'' @ decimal (i + 1) @ ''.pdf'', pages = ps\<rparr> # out, ok)))"

text \<open>The artifact that the loop produces for the range at index \<open>fst jr\<close>.\<close>

definition partArtifact :: "string \<Rightarrow> (nat, nat) mapping \<Rightarrow> nat \<times> nat list
    \<Rightarrow> (nat \<times> nat option) artifact" where
  "partArtifact base rot jr =
     \<lparr>download = base @ ''-part'' @ decimal (fst jr + 1) @ ''.pdf'',
      pages = map (copyPage rot) (snd jr)\<rparr>"

text \<open>The state after the delayed reset that follows a successful run.\<close>

definition resetTrim :: "state \<Rightarrow> state" where
  "resetTrim st =
     st\<lparr>error := None, trimFile := None, cutPoints := [], deletedPages := {||},
        rotations := Mapping.empty\<rparr>"

definition trimFailed :: "state \<Rightarrow> state" where
  "trimFailed st =
     st\<lparr>error := Some ''Failed to process PDF. File may be corrupted or encrypted.''\<rparr>"

text \<open>
  \<open>processTrim\<close> returns the state it leaves and the downloads it triggered, in order.
  It does nothing without a file or without modifications; a failure of the document
  library is caught and reported in \<open>error\<close>, after whatever was already downloaded.
\<close>

definition processTrim :: "state \<Rightarrow> state \<times> (nat \<times> nat option) artifact list" where
  "processTrim st =
     (case trimFile st of
        None \<Rightarrow> (st, [])
      | Some tf \<Rightarrow>
          if \<not> hasModifications st then (st, [])
          else case file_doc (trim_file tf) of
            None \<Rightarrow> (trimFailed st, [])
          | Some sourcePages \<Rightarrow>
              (let active = activePageNums (trim_pageCount tf) (deletedPages st);
                   base = baseName (trim_name tf)
               in if length (cutPoints st) = 0
                  then (case newPdf sourcePages (rotations st) active of
                          None \<Rightarrow> (trimFailed st, [])
                        | Some ps \<Rightarrow>
                            (resetTrim st, [\<lparr>download = base @ ''-trimmed.pdf'', pages = ps\<rparr>]))
                  else
                    (let ranges = buildRanges (trim_pageCount tf) (cutPoints st) (deletedPages st);
                         (out, ok) = emitParts base sourcePages (rotations st) ranges 0
                     in (if ok then resetTrim st else trimFailed st, out))))"

section \<open>Properties of the partition step\<close>

lemma activePageNums_alt:
  "activePageNums n deleted = filter (\<lambda>p. p |\<notin>| deleted) [1..<Suc n]"
proof -
  have "map (\<lambda>i. i + 1) [0..<n] = [1..<Suc n]"
    using map_Suc_upt [of 0 n] by simp
  then show ?thesis by (simp add: activePageNums_def)
qed

lemma set_activePageNums:
  "set (activePageNums n deleted) = {p. 1 \<le> p \<and> p \<le> n \<and> p |\<notin>| deleted}"
  by (auto simp: activePageNums_alt)

lemma sorted_activePageNums: "sorted_wrt (<) (activePageNums n deleted)"
  unfolding activePageNums_alt by (rule sorted_wrt_filter) (rule sorted_wrt_upt)

lemma distinct_activePageNums: "distinct (activePageNums n deleted)"
  by (simp add: activePageNums_alt)

text \<open>What the loop leaves behind, for any starting values of its two variables.\<close>

lemma rangesLoop_concat:
  "rangesLoop cs ps ranges cur = (rs, c) \<Longrightarrow> concat rs @ c = concat ranges @ cur @ ps"
  by (induction cs ps ranges cur rule: rangesLoop.induct) (auto split: if_splits)

lemma rangesLoop_nonempty:
  "rangesLoop cs ps ranges cur = (rs, c) \<Longrightarrow> [] \<notin> set ranges \<Longrightarrow> [] \<notin> set rs"
  by (induction cs ps ranges cur rule: rangesLoop.induct) (auto split: if_splits)

lemma buildRanges_cases:
  obtains rs c where "rangesLoop (sort cuts) (activePageNums n deleted) [] [] = (rs, c)"
    and "buildRanges n cuts deleted = (if c = [] then rs else rs @ [c])"
proof -
  obtain rs c where rc: "rangesLoop (sort cuts) (activePageNums n deleted) [] [] = (rs, c)"
    by (cases "rangesLoop (sort cuts) (activePageNums n deleted) [] []")
  then have "buildRanges n cuts deleted = (if c = [] then rs else rs @ [c])"
    by (simp add: buildRanges_def)
  with rc show ?thesis by (rule that)
qed

lemma concat_buildRanges: "concat (buildRanges n cuts deleted) = activePageNums n deleted"
proof -
  obtain rs c where rc: "rangesLoop (sort cuts) (activePageNums n deleted) [] [] = (rs, c)"
    and b: "buildRanges n cuts deleted = (if c = [] then rs else rs @ [c])"
    by (rule buildRanges_cases)
  from rangesLoop_concat [OF rc] have "concat rs @ c = activePageNums n deleted" by simp
  then show ?thesis by (auto simp: b)
qed

lemma buildRanges_nonempty: "[] \<notin> set (buildRanges n cuts deleted)"
proof -
  obtain rs c where rc: "rangesLoop (sort cuts) (activePageNums n deleted) [] [] = (rs, c)"
    and b: "buildRanges n cuts deleted = (if c = [] then rs else rs @ [c])"
    by (rule buildRanges_cases)
  from rangesLoop_nonempty [OF rc] have "[] \<notin> set rs" by simp
  then show ?thesis by (auto simp: b)
qed

lemma Min_block_less:
  assumes "a \<noteq> []" "b \<noteq> []" "\<forall>x\<in>set a. \<forall>y\<in>set b. x < (y::nat)"
  shows "Min (set a) < Min (set b)"
proof -
  have "Min (set a) \<in> set a" "Min (set b) \<in> set b"
    using assms by (auto intro: Min_in)
  with assms show ?thesis by blast
qed

lemma sorted_concat_Min:
  "sorted_wrt (<) (concat xss) \<Longrightarrow> [] \<notin> set xss \<Longrightarrow>
     sorted_wrt (\<lambda>a b. Min (set a) < Min (set b)) (xss :: nat list list)"
proof (induction xss)
  case Nil
  then show ?case by simp
next
  case (Cons a xss)
  from Cons.prems have sa: "\<forall>x\<in>set a. \<forall>y\<in>set (concat xss). x < y"
    and tl: "sorted_wrt (<) (concat xss)" and ne: "a \<noteq> []" "[] \<notin> set xss"
    by (auto simp: sorted_wrt_append)
  have "Min (set a) < Min (set b)" if b: "b \<in> set xss" for b
  proof (rule Min_block_less)
    show "a \<noteq> []" by (rule ne)
    show "b \<noteq> []" using b ne by auto
    show "\<forall>x\<in>set a. \<forall>y\<in>set b. x < y" using sa b by auto
  qed
  moreover have "sorted_wrt (\<lambda>a b. Min (set a) < Min (set b)) xss"
    using Cons.IH tl ne by simp
  ultimately show ?case by simp
qed

lemma buildRanges_ascending:
  "sorted_wrt (\<lambda>a b. Min (set a) < Min (set b)) (buildRanges n cuts deleted)"
proof (rule sorted_concat_Min)
  show "sorted_wrt (<) (concat (buildRanges n cuts deleted))"
    by (simp add: concat_buildRanges sorted_activePageNums)
  show "[] \<notin> set (buildRanges n cuts deleted)" by (rule buildRanges_nonempty)
qed

lemma concat_parts_disjoint:
  "distinct (concat xss) \<Longrightarrow> i < j \<Longrightarrow> j < length xss \<Longrightarrow>
     set (xss ! i) \<inter> set (xss ! j) = {}"
proof (induction xss arbitrary: i j)
  case Nil
  then show ?case by simp
next
  case (Cons a xss)
  from Cons.prems(2) obtain j' where j: "j = Suc j'" by (cases j) auto
  show ?case
  proof (cases i)
    case 0
    have "xss ! j' \<in> set xss" using Cons.prems(3) j by simp
    then have "set (xss ! j') \<subseteq> set (concat xss)" by auto
    moreover have "set a \<inter> set (concat xss) = {}" using Cons.prems(1) by simp
    ultimately show ?thesis using 0 j by auto
  next
    case (Suc i')
    have "distinct (concat xss)" using Cons.prems(1) by simp
    from Cons.IH [OF this, of i' j'] Cons.prems(2,3) Suc j show ?thesis by simp
  qed
qed

lemma exactly_one_part:
  assumes "distinct (concat xss)" "p \<in> set (concat xss)"
  shows "\<exists>!i. i < length xss \<and> p \<in> set (xss ! i)"
proof -
  from assms(2) obtain xs where "xs \<in> set xss" "p \<in> set xs" by auto
  then obtain i where i: "i < length xss" "p \<in> set (xss ! i)"
    by (metis in_set_conv_nth)
  have "j = i" if j: "j < length xss" "p \<in> set (xss ! j)" for j
  proof (rule ccontr)
    assume ne: "j \<noteq> i"
    have "set (xss ! i) \<inter> set (xss ! j) = {}"
    proof (cases "i < j")
      case True
      from concat_parts_disjoint [OF assms(1) True j(1)] show ?thesis .
    next
      case False
      with ne have "j < i" by simp
      from concat_parts_disjoint [OF assms(1) this i(1)] show ?thesis by blast
    qed
    with i j show False by blast
  qed
  with i show ?thesis by blast
qed

text \<open>
  C1 (partition coverage). For a document of \<open>n \<ge> 1\<close> pages, deletions within \<open>[1, n]\<close>
  that leave a page, and cut points within \<open>[1, n - 1]\<close>, the parts built by the
  partition step, read in order, are exactly the surviving sequence; so every surviving
  page lies in exactly one part, no part holds a deleted page or a page twice, no part is
  empty, and the parts come in ascending order of their smallest page.
\<close>

theorem partition_coverage:
  assumes "1 \<le> n"
    and "\<forall>d. d |\<in>| deleted \<longrightarrow> 1 \<le> d \<and> d \<le> n"
    and "fcard deleted < n"
    and "\<forall>c \<in> set cuts. 1 \<le> c \<and> c \<le> n - 1"
  shows "concat (buildRanges n cuts deleted) = activePageNums n deleted
    \<and> (\<forall>p. 1 \<le> p \<and> p \<le> n \<and> p |\<notin>| deleted \<longrightarrow>
           (\<exists>!i. i < length (buildRanges n cuts deleted)
                 \<and> p \<in> set (buildRanges n cuts deleted ! i)))
    \<and> (\<forall>r \<in> set (buildRanges n cuts deleted).
           \<forall>p \<in> set r. 1 \<le> p \<and> p \<le> n \<and> p |\<notin>| deleted)
    \<and> distinct (concat (buildRanges n cuts deleted))
    \<and> (\<forall>r \<in> set (buildRanges n cuts deleted). r \<noteq> [])
    \<and> buildRanges n cuts deleted \<noteq> []
    \<and> sorted_wrt (\<lambda>a b. Min (set a) < Min (set b)) (buildRanges n cuts deleted)"
proof -
  let ?rs = "buildRanges n cuts deleted"
  have c: "concat ?rs = activePageNums n deleted" by (rule concat_buildRanges)
  have d: "distinct (concat ?rs)" by (simp add: c distinct_activePageNums)
  have one: "\<forall>p. 1 \<le> p \<and> p \<le> n \<and> p |\<notin>| deleted \<longrightarrow>
      (\<exists>!i. i < length ?rs \<and> p \<in> set (?rs ! i))"
  proof (intro allI impI)
    fix p assume "1 \<le> p \<and> p \<le> n \<and> p |\<notin>| deleted"
    then have "p \<in> set (concat ?rs)" by (simp add: c set_activePageNums)
    with d show "\<exists>!i. i < length ?rs \<and> p \<in> set (?rs ! i)" by (rule exactly_one_part)
  qed
  have surv: "\<forall>r \<in> set ?rs. \<forall>p \<in> set r. 1 \<le> p \<and> p \<le> n \<and> p |\<notin>| deleted"
  proof (intro ballI)
    fix r p assume "r \<in> set ?rs" "p \<in> set r"
    then have "p \<in> set (concat ?rs)" by auto
    then show "1 \<le> p \<and> p \<le> n \<and> p |\<notin>| deleted" by (simp add: c set_activePageNums)
  qed
  have ne: "\<forall>r \<in> set ?rs. r \<noteq> []" using buildRanges_nonempty [of n cuts deleted] by auto
  have some: "?rs \<noteq> []"
  proof
    assume "?rs = []"
    then have "activePageNums n deleted = []" using c by simp
    then have "\<forall>p. 1 \<le> p \<and> p \<le> n \<longrightarrow> p |\<in>| deleted"
      using set_activePageNums [of n deleted] by auto
    then have "{1..n} \<subseteq> fset deleted" by auto
    then have "card {1..n} \<le> card (fset deleted)" by (intro card_mono) auto
    with assms(3) show False by (simp add: fcard.rep_eq)
  qed
  have asc: "sorted_wrt (\<lambda>a b. Min (set a) < Min (set b)) ?rs" by (rule buildRanges_ascending)
  from c one surv d ne some asc show ?thesis by blast
qed

theorem partition_coverage_witness:
  "buildRanges 4 [1, 3] {|2|} = [[1], [3], [4]]
   \<and> concat (buildRanges 4 [1, 3] {|2|}) = activePageNums 4 {|2|}
   \<and> (\<exists>!i. i < length (buildRanges 4 [1, 3] {|2|})
             \<and> 3 \<in> set (buildRanges 4 [1, 3] {|2|} ! i))
   \<and> distinct (concat (buildRanges 4 [1, 3] {|2|}))
   \<and> buildRanges 4 [1, 3] {|2|} \<noteq> []
   \<and> sorted_wrt (\<lambda>a b. Min (set a) < Min (set b)) (buildRanges 4 [1, 3] {|2|})"
proof -
  have h1: "(1::nat) \<le> 4" by simp
  have h2: "\<forall>d. d |\<in>| {|2::nat|} \<longrightarrow> 1 \<le> d \<and> d \<le> 4" by simp
  have h3: "fcard {|2::nat|} < 4" by code_simp
  have h4: "\<forall>c \<in> set [1, 3::nat]. 1 \<le> c \<and> c \<le> 4 - 1" by simp
  have v: "buildRanges 4 [1, 3] {|2|} = [[1], [3], [4]]" by code_simp
  note t = partition_coverage [OF h1 h2 h3 h4]
  note a = t [THEN conjunct1]
  note one = t [THEN conjunct2, THEN conjunct1]
  note c = t [THEN conjunct2, THEN conjunct2, THEN conjunct2, THEN conjunct1]
  note d = t [THEN conjunct2, THEN conjunct2, THEN conjunct2, THEN conjunct2, THEN conjunct2,
    THEN conjunct1]
  note e = t [THEN conjunct2, THEN conjunct2, THEN conjunct2, THEN conjunct2, THEN conjunct2,
    THEN conjunct2]
  have live: "(1::nat) \<le> 3 \<and> (3::nat) \<le> 4 \<and> (3::nat) |\<notin>| {|2|}" by simp
  from one [THEN spec, of 3, THEN mp, OF live]
  have b: "\<exists>!i. i < length (buildRanges 4 [1, 3] {|2|})
                 \<and> 3 \<in> set (buildRanges 4 [1, 3] {|2|} ! i)" .
  from v a b c d e show ?thesis by (intro conjI)
qed

lemma rangesLoop_cong:
  "(\<forall>p\<in>set ps. List.member cs p = List.member cs' p) \<Longrightarrow>
     rangesLoop cs ps ranges cur = rangesLoop cs' ps ranges cur"
  by (induction ps arbitrary: ranges cur) simp_all

lemma buildRanges_survivors_only:
  "buildRanges n cuts deleted = buildRanges n (filter (\<lambda>c. c |\<notin>| deleted) cuts) deleted"
proof -
  have "\<forall>p\<in>set (activePageNums n deleted).
          List.member (sort cuts) p = List.member (sort (filter (\<lambda>c. c |\<notin>| deleted) cuts)) p"
    by (auto simp: set_activePageNums)
  from rangesLoop_cong [OF this] show ?thesis by (simp add: buildRanges_def)
qed

lemma rangesLoop_cut_structure:
  "rangesLoop cs ps ranges cur = (rs, c) \<Longrightarrow>
   \<forall>r\<in>set ranges. r \<noteq> [] \<and> last r \<in> set cs \<and> set (butlast r) \<inter> set cs = {} \<Longrightarrow>
   set cur \<inter> set cs = {} \<Longrightarrow>
   (\<forall>r\<in>set rs. r \<noteq> [] \<and> last r \<in> set cs \<and> set (butlast r) \<inter> set cs = {})
     \<and> set c \<inter> set cs = {}"
proof (induction cs ps ranges cur rule: rangesLoop.induct)
  case (1 sortedCuts ranges currentRange)
  then show ?case by simp
next
  case (2 sortedCuts pageNum rest ranges currentRange)
  show ?case
  proof (cases "List.member sortedCuts pageNum")
    case True
    with "2.prems"(1) have run: "rangesLoop sortedCuts rest (ranges @ [currentRange @ [pageNum]]) [] = (rs, c)"
      by simp
    have inv: "\<forall>r\<in>set (ranges @ [currentRange @ [pageNum]]).
        r \<noteq> [] \<and> last r \<in> set sortedCuts \<and> set (butlast r) \<inter> set sortedCuts = {}"
      using "2.prems"(2,3) True by auto
    from "2.IH"(1) [OF True run inv] show ?thesis by simp
  next
    case False
    with "2.prems"(1) have run: "rangesLoop sortedCuts rest ranges (currentRange @ [pageNum]) = (rs, c)"
      by simp
    have cur: "set (currentRange @ [pageNum]) \<inter> set sortedCuts = {}"
      using "2.prems"(3) False by auto
    from "2.IH"(2) [OF False run "2.prems"(2) cur] show ?thesis .
  qed
qed

lemma buildRanges_cut_structure:
  "\<forall>r\<in>set (buildRanges n cuts deleted). set (butlast r) \<inter> set cuts = {}"
  "\<forall>c\<in>set cuts. c \<in> set (activePageNums n deleted) \<longrightarrow>
      (\<exists>r\<in>set (buildRanges n cuts deleted). last r = c)"
proof -
  obtain rs c where rc: "rangesLoop (sort cuts) (activePageNums n deleted) [] [] = (rs, c)"
    and b: "buildRanges n cuts deleted = (if c = [] then rs else rs @ [c])"
    by (rule buildRanges_cases)
  from rangesLoop_cut_structure [OF rc]
  have rs: "\<forall>r\<in>set rs. r \<noteq> [] \<and> last r \<in> set cuts \<and> set (butlast r) \<inter> set cuts = {}"
    and c: "set c \<inter> set cuts = {}" by simp_all
  have "set (butlast c) \<subseteq> set c" by (auto dest: in_set_butlastD)
  with rs c show "\<forall>r\<in>set (buildRanges n cuts deleted). set (butlast r) \<inter> set cuts = {}"
    by (auto simp: b)
  from rangesLoop_concat [OF rc] have cat: "concat rs @ c = activePageNums n deleted" by simp
  show "\<forall>x\<in>set cuts. x \<in> set (activePageNums n deleted) \<longrightarrow>
      (\<exists>r\<in>set (buildRanges n cuts deleted). last r = x)"
  proof (intro ballI impI)
    fix x assume x: "x \<in> set cuts" "x \<in> set (activePageNums n deleted)"
    then have "x \<in> set (concat rs) \<or> x \<in> set c" using cat by (metis Un_iff set_append)
    with c x(1) have "x \<in> set (concat rs)" by auto
    then obtain r where r: "r \<in> set rs" "x \<in> set r" by auto
    with rs have ne: "r \<noteq> []" and bl: "set (butlast r) \<inter> set cuts = {}" by auto
    have "last r = x"
    proof (rule ccontr)
      assume "last r \<noteq> x"
      with r(2) ne have "x \<in> set (butlast r)" by (induction r) (auto split: if_splits)
      with bl x(1) show False by auto
    qed
    with r(1) show "\<exists>r\<in>set (buildRanges n cuts deleted). last r = x" by (auto simp: b)
  qed
qed

lemma buildRanges_boundaries:
  "\<forall>i. Suc i < length (buildRanges n cuts deleted) \<longrightarrow>
      last (buildRanges n cuts deleted ! i) \<in> set cuts"
proof (intro allI impI)
  fix i assume i: "Suc i < length (buildRanges n cuts deleted)"
  obtain rs c where rc: "rangesLoop (sort cuts) (activePageNums n deleted) [] [] = (rs, c)"
    and b: "buildRanges n cuts deleted = (if c = [] then rs else rs @ [c])"
    by (rule buildRanges_cases)
  from rangesLoop_cut_structure [OF rc]
  have rs: "\<forall>r\<in>set rs. last r \<in> set cuts" by simp
  from i b have il: "i < length rs" by (auto split: if_splits)
  then have "buildRanges n cuts deleted ! i = rs ! i" by (simp add: b nth_append)
  with rs il show "last (buildRanges n cuts deleted ! i) \<in> set cuts" by simp
qed

text \<open>
  C2 (inert cut points). The parts depend on the cut points only through those whose
  page survives: dropping every cut point on a deleted page leaves the parts unchanged.
  A cut point on a surviving page is the last page of some part, no part runs past a cut
  point, and every part but the last ends on a cut point. In particular a document of 5
  pages with cut points 2 and 3 and page 3 deleted gives the parts \<open>[1, 2]\<close> and
  \<open>[4, 5]\<close>.
\<close>

theorem inert_cut_tiebreak:
  "buildRanges n cuts deleted = buildRanges n (filter (\<lambda>c. c |\<notin>| deleted) cuts) deleted
   \<and> (\<forall>c\<in>set cuts. 1 \<le> c \<and> c \<le> n \<and> c |\<notin>| deleted \<longrightarrow>
         (\<exists>r\<in>set (buildRanges n cuts deleted). last r = c))
   \<and> (\<forall>r\<in>set (buildRanges n cuts deleted). set (butlast r) \<inter> set cuts = {})
   \<and> (\<forall>i. Suc i < length (buildRanges n cuts deleted) \<longrightarrow>
         last (buildRanges n cuts deleted ! i) \<in> set cuts)
   \<and> buildRanges 5 [2, 3] {|3|} = [[1, 2], [4, 5]]"
proof -
  have a: "buildRanges n cuts deleted = buildRanges n (filter (\<lambda>c. c |\<notin>| deleted) cuts) deleted"
    by (rule buildRanges_survivors_only)
  have b: "\<forall>c\<in>set cuts. 1 \<le> c \<and> c \<le> n \<and> c |\<notin>| deleted \<longrightarrow>
         (\<exists>r\<in>set (buildRanges n cuts deleted). last r = c)"
    using buildRanges_cut_structure(2) [of cuts n deleted] by (simp add: set_activePageNums)
  have c: "\<forall>r\<in>set (buildRanges n cuts deleted). set (butlast r) \<inter> set cuts = {}"
    by (rule buildRanges_cut_structure(1))
  have d: "\<forall>i. Suc i < length (buildRanges n cuts deleted) \<longrightarrow>
         last (buildRanges n cuts deleted ! i) \<in> set cuts"
    by (rule buildRanges_boundaries)
  have e: "buildRanges 5 [2, 3] {|3|} = [[1, 2], [4, 5]]" by code_simp
  from a b c d e show ?thesis by blast
qed

theorem inert_cut_tiebreak_witness:
  "buildRanges 6 [2, 4] {|4|} = [[1, 2], [3, 5, 6]]
   \<and> buildRanges 6 [2, 4] {|4|} = buildRanges 6 [2] {|4|}
   \<and> (\<exists>r\<in>set (buildRanges 6 [2, 4] {|4|}). last r = 2)
   \<and> set (butlast [3, 5, 6]) \<inter> set [2, 4::nat] = {}
   \<and> last (buildRanges 6 [2, 4] {|4|} ! 0) \<in> set [2, 4]"
proof -
  note t = inert_cut_tiebreak [of 6 "[2, 4]" "{|4|}"]
  have v: "buildRanges 6 [2, 4] {|4|} = [[1, 2], [3, 5, 6]]" by code_simp
  have f: "filter (\<lambda>c. c |\<notin>| {|4|}) [2, 4::nat] = [2]" by simp
  from t have "buildRanges 6 [2, 4] {|4|} = buildRanges 6 (filter (\<lambda>c. c |\<notin>| {|4|}) [2, 4]) {|4|}"
    by (rule conjunct1)
  with f have a: "buildRanges 6 [2, 4] {|4|} = buildRanges 6 [2] {|4|}" by simp
  from t have "\<forall>c\<in>set [2, 4::nat]. 1 \<le> c \<and> c \<le> 6 \<and> c |\<notin>| {|4|} \<longrightarrow>
         (\<exists>r\<in>set (buildRanges 6 [2, 4] {|4|}). last r = c)" by blast
  then have b: "\<exists>r\<in>set (buildRanges 6 [2, 4] {|4|}). last r = 2" by simp
  from t have "\<forall>r\<in>set (buildRanges 6 [2, 4] {|4|}). set (butlast r) \<inter> set [2, 4] = {}"
    by blast
  then have c: "set (butlast [3, 5, 6]) \<inter> set [2, 4::nat] = {}" by (simp add: v)
  from t have "\<forall>i. Suc i < length (buildRanges 6 [2, 4] {|4|}) \<longrightarrow>
         last (buildRanges 6 [2, 4] {|4|} ! i) \<in> set [2, 4]" by blast
  then have "Suc 0 < length (buildRanges 6 [2, 4] {|4|}) \<longrightarrow>
         last (buildRanges 6 [2, 4] {|4|} ! 0) \<in> set [2, 4]" by (rule spec)
  then have d: "last (buildRanges 6 [2, 4] {|4|} ! 0) \<in> set [2, 4]" by (simp add: v)
  from v a b c d show ?thesis by blast
qed

section \<open>Properties of \<open>processTrim\<close>\<close>

lemma buildRanges_in_range:
  "r \<in> set (buildRanges n cuts deleted) \<Longrightarrow> p \<in> set r \<Longrightarrow> 1 \<le> p \<and> p \<le> n \<and> p |\<notin>| deleted"
proof -
  assume "r \<in> set (buildRanges n cuts deleted)" "p \<in> set r"
  then have "p \<in> set (concat (buildRanges n cuts deleted))" by auto
  then show ?thesis by (simp add: concat_buildRanges set_activePageNums)
qed

lemma emitParts_all:
  "[] \<notin> set ranges \<Longrightarrow> \<forall>r\<in>set ranges. \<forall>p\<in>set r. p - 1 < m \<Longrightarrow>
   emitParts base m rot ranges i = (map (partArtifact base rot) (enumerate i ranges), True)"
proof (induction ranges arbitrary: i)
  case Nil
  then show ?case by simp
next
  case (Cons r ranges)
  from Cons.prems have r: "r \<noteq> []" "list_all (\<lambda>p. p - 1 < m) r"
    by (auto simp: list_all_iff)
  from Cons.prems have "emitParts base m rot ranges (i + 1)
      = (map (partArtifact base rot) (enumerate (i + 1) ranges), True)"
    by (intro Cons.IH) auto
  with r show ?case by (simp add: newPdf_def partArtifact_def)
qed

lemma download_partArtifact:
  "map download (map (partArtifact base rot) (enumerate 0 ranges))
     = map (\<lambda>k. base @ ''-part'' @ decimal k @ ''.pdf'') [1..<Suc (length ranges)]"
proof -
  have "map download (map (partArtifact base rot) (enumerate 0 ranges))
      = map ((\<lambda>j. base @ ''-part'' @ decimal (Suc j) @ ''.pdf'') \<circ> fst) (enumerate 0 ranges)"
    by (simp add: partArtifact_def comp_def)
  also have "\<dots> = map (\<lambda>j. base @ ''-part'' @ decimal (Suc j) @ ''.pdf'') (map fst (enumerate 0 ranges))"
    by (simp only: map_map)
  also have "\<dots> = map (\<lambda>k. base @ ''-part'' @ decimal k @ ''.pdf'') (map Suc [0..<length ranges])"
    by (simp add: comp_def)
  also have "map Suc [0..<length ranges] = [1..<Suc (length ranges)]"
    using map_Suc_upt [of 0 "length ranges"] by simp
  finally show ?thesis .
qed

lemma processTrim_split:
  assumes "trimFile st = Some tf" "file_doc (trim_file tf) = Some (trim_pageCount tf)"
    and "cutPoints st \<noteq> []"
  shows "processTrim st =
    (resetTrim st,
     map (partArtifact (baseName (trim_name tf)) (rotations st))
       (enumerate 0 (buildRanges (trim_pageCount tf) (cutPoints st) (deletedPages st))))"
proof -
  let ?rs = "buildRanges (trim_pageCount tf) (cutPoints st) (deletedPages st)"
  have hm: "hasModifications st" using assms(3) by (simp add: hasModifications_def)
  have "\<forall>r\<in>set ?rs. \<forall>p\<in>set r. p - 1 < trim_pageCount tf"
    using buildRanges_in_range [of _ "trim_pageCount tf" "cutPoints st" "deletedPages st"]
    by fastforce
  from emitParts_all [OF buildRanges_nonempty this]
  have "emitParts (baseName (trim_name tf)) (trim_pageCount tf) (rotations st) ?rs 0
      = (map (partArtifact (baseName (trim_name tf)) (rotations st)) (enumerate 0 ?rs), True)" .
  with assms hm show ?thesis by (simp add: processTrim_def)
qed

lemma activePageNums_in_range: "\<forall>p\<in>set (activePageNums n deleted). p - 1 < n"
  by (auto simp: set_activePageNums)

lemma processTrim_nocut:
  assumes "trimFile st = Some tf" "file_doc (trim_file tf) = Some (trim_pageCount tf)"
    and "cutPoints st = []" "hasModifications st"
  shows "processTrim st =
    (resetTrim st,
     [\<lparr>download = baseName (trim_name tf) @ ''-trimmed.pdf'',
       pages = map (copyPage (rotations st))
                 (activePageNums (trim_pageCount tf) (deletedPages st))\<rparr>])"
proof -
  have "list_all (\<lambda>p. p - 1 < trim_pageCount tf)
          (activePageNums (trim_pageCount tf) (deletedPages st))"
    using activePageNums_in_range [of "trim_pageCount tf" "deletedPages st"]
    by (simp add: list_all_iff)
  then have "newPdf (trim_pageCount tf) (rotations st)
        (activePageNums (trim_pageCount tf) (deletedPages st))
      = Some (map (copyPage (rotations st)) (activePageNums (trim_pageCount tf) (deletedPages st)))"
    by (simp add: newPdf_def)
  with assms show ?thesis by (simp add: processTrim_def)
qed

lemma processTrim_unmodified:
  "\<not> hasModifications st \<Longrightarrow> processTrim st = (st, [])"
  by (simp add: processTrim_def split: option.splits)

text \<open>
  C3 (empty-part elision and contiguous numbering). For a loaded file with at least one
  cut point, whatever the deletions: no part built by the partition step is empty;
  \<open>processTrim\<close> downloads one document per part, in the order of the parts, holding
  that part's pages; and the \<open>k\<close> documents are named \<open>base-part1.pdf\<close> to
  \<open>base-partk.pdf\<close>, without a gap.
\<close>

theorem split_parts_numbered:
  assumes "trimFile st = Some tf"
    and "file_doc (trim_file tf) = Some (trim_pageCount tf)"
    and "cutPoints st \<noteq> []"
  shows "[] \<notin> set (buildRanges (trim_pageCount tf) (cutPoints st) (deletedPages st))
    \<and> map download (snd (processTrim st))
        = map (\<lambda>k. baseName (trim_name tf) @ ''-part'' @ decimal k @ ''.pdf'')
            [1..<Suc (length (buildRanges (trim_pageCount tf) (cutPoints st) (deletedPages st)))]
    \<and> map pages (snd (processTrim st))
        = map (map (copyPage (rotations st)))
            (buildRanges (trim_pageCount tf) (cutPoints st) (deletedPages st))"
proof -
  let ?rs = "buildRanges (trim_pageCount tf) (cutPoints st) (deletedPages st)"
  have out: "snd (processTrim st)
      = map (partArtifact (baseName (trim_name tf)) (rotations st)) (enumerate 0 ?rs)"
    using processTrim_split [OF assms] by simp
  have "map pages (map (partArtifact (baseName (trim_name tf)) (rotations st)) (enumerate 0 ?rs))
      = map (map (copyPage (rotations st)) \<circ> snd) (enumerate 0 ?rs)"
    by (simp add: partArtifact_def comp_def)
  also have "\<dots> = map (map (copyPage (rotations st))) (map snd (enumerate 0 ?rs))"
    by (simp only: map_map)
  finally have pg: "map pages (snd (processTrim st)) = map (map (copyPage (rotations st))) ?rs"
    by (simp add: out)
  from buildRanges_nonempty out download_partArtifact pg show ?thesis by simp
qed

theorem split_parts_numbered_witness:
  "map download (snd (processTrim
      \<lparr>files = [],
       trimFile = Some \<lparr>trim_file = \<lparr>file_name = ''scan.pdf'', file_type = ''application/pdf'',
                                    file_doc = Some 5\<rparr>,
                        trim_name = ''scan.pdf'', trim_pageCount = 5\<rparr>,
       cutPoints = [2, 3], deletedPages = {|3|}, rotations = Mapping.empty, error = None\<rparr>))
     = [''scan-part1.pdf'', ''scan-part2.pdf'']"
proof -
  let ?tf = "\<lparr>trim_file = \<lparr>file_name = ''scan.pdf'', file_type = ''application/pdf'',
                            file_doc = Some 5\<rparr>,
                trim_name = ''scan.pdf'', trim_pageCount = 5\<rparr>"
  let ?st = "\<lparr>files = [], trimFile = Some ?tf,
       cutPoints = [2, 3], deletedPages = {|3|}, rotations = Mapping.empty, error = None\<rparr>"
  have h1: "trimFile ?st = Some ?tf" by simp
  have h2: "file_doc (trim_file ?tf) = Some (trim_pageCount ?tf)" by simp
  have h3: "cutPoints ?st \<noteq> []" by simp
  have v: "buildRanges 5 [2, 3] {|3|} = [[1, 2], [4, 5]]" by code_simp
  have b: "baseName ''scan.pdf'' = ''scan''" by code_simp
  have d1: "decimal (Suc 0) = ''1''" by code_simp
  have d2: "decimal (Suc (Suc 0)) = ''2''" by code_simp
  have u: "[1..<Suc (Suc (Suc 0))] = [1, 2]" by (simp add: upt_rec)
  from split_parts_numbered [OF h1 h2 h3] have
    "map download (snd (processTrim ?st))
        = map (\<lambda>k. baseName (trim_name ?tf) @ ''-part'' @ decimal k @ ''.pdf'')
            [1..<Suc (length (buildRanges (trim_pageCount ?tf) (cutPoints ?st) (deletedPages ?st)))]"
    by blast
  then show ?thesis by (simp add: v b d1 d2 u)
qed

text \<open>
  C7 (no cut points), as the claim states it: with no cut point, any valid deletions and
  rotations give exactly one download. This fails when nothing is deleted and nothing is
  rotated: \<open>processTrim\<close> returns at once and downloads nothing.
\<close>

theorem no_cut_counterexample:
  "processTrim
      \<lparr>files = [],
       trimFile = Some \<lparr>trim_file = \<lparr>file_name = ''scan.pdf'', file_type = ''application/pdf'',
                                    file_doc = Some 3\<rparr>,
                        trim_name = ''scan.pdf'', trim_pageCount = 3\<rparr>,
       cutPoints = [], deletedPages = {||}, rotations = Mapping.empty, error = None\<rparr>
   = (\<lparr>files = [],
       trimFile = Some \<lparr>trim_file = \<lparr>file_name = ''scan.pdf'', file_type = ''application/pdf'',
                                    file_doc = Some 3\<rparr>,
                        trim_name = ''scan.pdf'', trim_pageCount = 3\<rparr>,
       cutPoints = [], deletedPages = {||}, rotations = Mapping.empty, error = None\<rparr>, [])"
  by code_simp

text \<open>
  C7, amended. With a loaded file, no cut point and at least one deleted or rotated page,
  \<open>processTrim\<close> downloads exactly one document, named with the base name and
  \<open>-trimmed\<close>, that holds the surviving pages in their original order, each with its
  rotation set when it has one. Without any modification it downloads nothing and leaves
  the state as it is.
\<close>

theorem no_cut_single_artifact:
  assumes "trimFile st = Some tf"
    and "file_doc (trim_file tf) = Some (trim_pageCount tf)"
    and "cutPoints st = []"
  shows "(hasModifications st \<longrightarrow>
           processTrim st =
             (resetTrim st,
              [\<lparr>download = baseName (trim_name tf) @ ''-trimmed.pdf'',
                pages = map (copyPage (rotations st))
                          (activePageNums (trim_pageCount tf) (deletedPages st))\<rparr>]))
    \<and> (\<not> hasModifications st \<longrightarrow> processTrim st = (st, []))"
  using processTrim_nocut [OF assms] processTrim_unmodified [of st] by blast

theorem no_cut_single_artifact_witness:
  "snd (processTrim
      \<lparr>files = [],
       trimFile = Some \<lparr>trim_file = \<lparr>file_name = ''scan.pdf'', file_type = ''application/pdf'',
                                    file_doc = Some 3\<rparr>,
                        trim_name = ''scan.pdf'', trim_pageCount = 3\<rparr>,
       cutPoints = [], deletedPages = {|2|}, rotations = Mapping.update 3 90 Mapping.empty,
       error = None\<rparr>)
   = [\<lparr>download = ''scan-trimmed.pdf'', pages = [(0, None), (2, Some 90)]\<rparr>]
   \<and> snd (processTrim
      \<lparr>files = [],
       trimFile = Some \<lparr>trim_file = \<lparr>file_name = ''scan.pdf'', file_type = ''application/pdf'',
                                    file_doc = Some 3\<rparr>,
                        trim_name = ''scan.pdf'', trim_pageCount = 3\<rparr>,
       cutPoints = [], deletedPages = {||}, rotations = Mapping.empty, error = None\<rparr>) = []"
proof -
  let ?tf = "\<lparr>trim_file = \<lparr>file_name = ''scan.pdf'', file_type = ''application/pdf'',
                            file_doc = Some 3\<rparr>,
                trim_name = ''scan.pdf'', trim_pageCount = 3\<rparr>"
  let ?st = "\<lparr>files = [], trimFile = Some ?tf,
       cutPoints = [], deletedPages = {|2|}, rotations = Mapping.update 3 90 Mapping.empty,
       error = None\<rparr>"
  let ?st' = "\<lparr>files = [], trimFile = Some ?tf,
       cutPoints = [], deletedPages = {||}, rotations = Mapping.empty, error = None\<rparr>"
  have h1: "trimFile ?st = Some ?tf" by simp
  have h2: "file_doc (trim_file ?tf) = Some (trim_pageCount ?tf)" by simp
  have h3: "cutPoints ?st = []" by simp
  have h4: "hasModifications ?st" by code_simp
  have b: "baseName ''scan.pdf'' = ''scan''" by code_simp
  have p: "map (copyPage (Mapping.update 3 90 Mapping.empty)) (activePageNums 3 {|2|})
      = [(0, None), (2, Some 90)]" by code_simp
  from no_cut_single_artifact [OF h1 h2 h3] h4
  have "processTrim ?st =
             (resetTrim ?st,
              [\<lparr>download = baseName (trim_name ?tf) @ ''-trimmed.pdf'',
                pages = map (copyPage (rotations ?st))
                          (activePageNums (trim_pageCount ?tf) (deletedPages ?st))\<rparr>])"
    by blast
  then have a: "snd (processTrim ?st)
      = [\<lparr>download = ''scan-trimmed.pdf'', pages = [(0, None), (2, Some 90)]\<rparr>]"
    by (simp add: b p)
  have h1': "trimFile ?st' = Some ?tf" by simp
  have h3': "cutPoints ?st' = []" by simp
  have h4': "\<not> hasModifications ?st'" by code_simp
  from no_cut_single_artifact [OF h1' h2 h3'] h4'
  have "processTrim ?st' = (?st', [])" by blast
  then have c: "snd (processTrim ?st') = []" by simp
  from a c show ?thesis by (rule conjI)
qed

lemma rangesLoop_append:
  "rangesLoop cs (ps @ qs) ranges cur =
     (case rangesLoop cs ps ranges cur of (r, c) \<Rightarrow> rangesLoop cs qs r c)"
  by (induction ps arbitrary: ranges cur) simp_all

lemma activePageNums_Suc:
  "activePageNums (Suc n) deleted =
     activePageNums n deleted @ (if Suc n |\<notin>| deleted then [Suc n] else [])"
  by (simp add: activePageNums_def)

lemma buildRanges_cut_absent:
  assumes "c \<notin> set (activePageNums n deleted)"
  shows "buildRanges n cuts deleted = buildRanges n (removeAll c cuts) deleted"
proof -
  have "\<forall>p\<in>set (activePageNums n deleted).
          List.member (sort cuts) p = List.member (sort (removeAll c cuts)) p"
    using assms by auto
  from rangesLoop_cong [OF this] show ?thesis by (simp add: buildRanges_def)
qed

lemma buildRanges_cut_last:
  "buildRanges n cuts deleted = buildRanges n (removeAll n cuts) deleted"
proof (cases "n \<in> set (activePageNums n deleted)")
  case False
  then show ?thesis by (rule buildRanges_cut_absent)
next
  case True
  then have "1 \<le> n" "n |\<notin>| deleted" by (simp_all add: set_activePageNums)
  then obtain m where n: "n = Suc m" and live: "Suc m |\<notin>| deleted"
    by (cases n) simp_all
  have same: "\<forall>p\<in>set (activePageNums m deleted).
          List.member (sort cuts) p = List.member (sort (removeAll (Suc m) cuts)) p"
    by (auto simp: set_activePageNums)
  obtain r c where rc: "rangesLoop (sort cuts) (activePageNums m deleted) [] [] = (r, c)"
    by (cases "rangesLoop (sort cuts) (activePageNums m deleted) [] []")
  with rangesLoop_cong [OF same]
  have rc': "rangesLoop (sort (removeAll (Suc m) cuts)) (activePageNums m deleted) [] [] = (r, c)"
    by simp
  have act: "activePageNums (Suc m) deleted = activePageNums m deleted @ [Suc m]"
    using live by (simp add: activePageNums_Suc)
  have "rangesLoop (sort cuts) (activePageNums (Suc m) deleted) [] []
      = rangesLoop (sort cuts) [Suc m] r c"
    by (simp only: act rangesLoop_append rc prod.case)
  then have a: "rangesLoop (sort cuts) (activePageNums (Suc m) deleted) [] []
      = (if Suc m \<in> set cuts then (r @ [c @ [Suc m]], []) else (r, c @ [Suc m]))"
    by simp
  have "rangesLoop (sort (removeAll (Suc m) cuts)) (activePageNums (Suc m) deleted) [] []
      = rangesLoop (sort (removeAll (Suc m) cuts)) [Suc m] r c"
    by (simp only: act rangesLoop_append rc' prod.case)
  then have b: "rangesLoop (sort (removeAll (Suc m) cuts)) (activePageNums (Suc m) deleted) [] []
      = (r, c @ [Suc m])"
    by simp
  have "buildRanges (Suc m) cuts deleted = r @ [c @ [Suc m]]"
    unfolding buildRanges_def Let_def a by simp
  moreover have "buildRanges (Suc m) (removeAll (Suc m) cuts) deleted = r @ [c @ [Suc m]]"
    unfolding buildRanges_def Let_def b by simp
  ultimately show ?thesis by (simp add: n)
qed

lemma buildRanges_out_of_range:
  assumes "c < 1 \<or> int c > int n - 1"
  shows "buildRanges n cuts deleted = buildRanges n (removeAll c cuts) deleted"
proof (cases "c = n")
  case True
  show ?thesis unfolding True by (rule buildRanges_cut_last)
next
  case False
  with assms have "c \<notin> set (activePageNums n deleted)"
    by (auto simp: set_activePageNums)
  then show ?thesis by (rule buildRanges_cut_absent)
qed

lemma buildRanges_all_deleted:
  assumes "\<forall>p. 1 \<le> p \<and> p \<le> n \<longrightarrow> p |\<in>| deleted"
  shows "buildRanges n cuts deleted = []"
proof -
  have "set (activePageNums n deleted) = {}" using assms by (auto simp: set_activePageNums)
  then have "activePageNums n deleted = []" by simp
  then show ?thesis by (simp add: buildRanges_def)
qed

text \<open>
  C5 (defensive partition errors), as the claim states it: a cut point outside
  \<open>[1, pageCount - 1]\<close> makes the partition step fail, and so does the deletion of every
  page. Neither happens. With 3 pages and the cut point 7 the run succeeds with one part
  of all pages; with 3 pages, all deleted, and the cut point 1 it succeeds with no part
  and no download. No error is reported in either run.
\<close>

theorem partition_errors_counterexample:
  "error (fst (processTrim
      \<lparr>files = [],
       trimFile = Some \<lparr>trim_file = \<lparr>file_name = ''scan.pdf'', file_type = ''application/pdf'',
                                    file_doc = Some 3\<rparr>,
                        trim_name = ''scan.pdf'', trim_pageCount = 3\<rparr>,
       cutPoints = [7], deletedPages = {||}, rotations = Mapping.empty, error = None\<rparr>)) = None
   \<and> snd (processTrim
      \<lparr>files = [],
       trimFile = Some \<lparr>trim_file = \<lparr>file_name = ''scan.pdf'', file_type = ''application/pdf'',
                                    file_doc = Some 3\<rparr>,
                        trim_name = ''scan.pdf'', trim_pageCount = 3\<rparr>,
       cutPoints = [7], deletedPages = {||}, rotations = Mapping.empty, error = None\<rparr>)
     = [\<lparr>download = ''scan-part1.pdf'', pages = [(0, None), (1, None), (2, None)]\<rparr>]
   \<and> error (fst (processTrim
      \<lparr>files = [],
       trimFile = Some \<lparr>trim_file = \<lparr>file_name = ''scan.pdf'', file_type = ''application/pdf'',
                                    file_doc = Some 3\<rparr>,
                        trim_name = ''scan.pdf'', trim_pageCount = 3\<rparr>,
       cutPoints = [1], deletedPages = {|1, 2, 3|}, rotations = Mapping.empty,
       error = None\<rparr>)) = None
   \<and> snd (processTrim
      \<lparr>files = [],
       trimFile = Some \<lparr>trim_file = \<lparr>file_name = ''scan.pdf'', file_type = ''application/pdf'',
                                    file_doc = Some 3\<rparr>,
                        trim_name = ''scan.pdf'', trim_pageCount = 3\<rparr>,
       cutPoints = [1], deletedPages = {|1, 2, 3|}, rotations = Mapping.empty,
       error = None\<rparr>) = []"
  by code_simp

lemma processTrim_succeeds:
  assumes "trimFile st = Some tf" "file_doc (trim_file tf) = Some (trim_pageCount tf)"
    and "hasModifications st"
  shows "fst (processTrim st) = resetTrim st"
proof (cases "cutPoints st = []")
  case True
  from processTrim_nocut [OF assms(1,2) True assms(3)] show ?thesis by simp
next
  case False
  from processTrim_split [OF assms(1,2) False] show ?thesis by simp
qed

text \<open>
  C5, amended. The partition step validates nothing and does not fail. For a loaded file
  with some modification \<open>processTrim\<close> ends in the reset state with no error, whatever
  the cut points and deletions are. A cut point outside \<open>[1, pageCount - 1]\<close> sets no
  boundary: the parts are those built without it. When every page is deleted there is no
  part, and the split path downloads nothing.
\<close>

theorem partition_no_validation:
  assumes "trimFile st = Some tf"
    and "file_doc (trim_file tf) = Some (trim_pageCount tf)"
    and "hasModifications st"
  shows "fst (processTrim st) = resetTrim st
    \<and> error (fst (processTrim st)) = None
    \<and> (\<forall>c. c < 1 \<or> int c > int (trim_pageCount tf) - 1 \<longrightarrow>
          buildRanges (trim_pageCount tf) (cutPoints st) (deletedPages st)
            = buildRanges (trim_pageCount tf) (removeAll c (cutPoints st)) (deletedPages st))
    \<and> ((\<forall>p. 1 \<le> p \<and> p \<le> trim_pageCount tf \<longrightarrow> p |\<in>| deletedPages st) \<longrightarrow>
          buildRanges (trim_pageCount tf) (cutPoints st) (deletedPages st) = []
          \<and> (cutPoints st \<noteq> [] \<longrightarrow> snd (processTrim st) = []))"
proof -
  have a: "fst (processTrim st) = resetTrim st" by (rule processTrim_succeeds [OF assms])
  then have b: "error (fst (processTrim st)) = None" by (simp add: resetTrim_def)
  have c: "\<forall>c. c < 1 \<or> int c > int (trim_pageCount tf) - 1 \<longrightarrow>
          buildRanges (trim_pageCount tf) (cutPoints st) (deletedPages st)
            = buildRanges (trim_pageCount tf) (removeAll c (cutPoints st)) (deletedPages st)"
    by (intro allI impI buildRanges_out_of_range)
  have d: "buildRanges (trim_pageCount tf) (cutPoints st) (deletedPages st) = []
          \<and> (cutPoints st \<noteq> [] \<longrightarrow> snd (processTrim st) = [])"
    if all: "\<forall>p. 1 \<le> p \<and> p \<le> trim_pageCount tf \<longrightarrow> p |\<in>| deletedPages st"
  proof -
    have e: "buildRanges (trim_pageCount tf) (cutPoints st) (deletedPages st) = []"
      using all by (rule buildRanges_all_deleted)
    have "snd (processTrim st) = []" if "cutPoints st \<noteq> []"
      using processTrim_split [OF assms(1,2) that] by (simp add: e)
    with e show ?thesis by blast
  qed
  from a b c d show ?thesis by blast
qed

theorem partition_no_validation_witness:
  "error (fst (processTrim
      \<lparr>files = [],
       trimFile = Some \<lparr>trim_file = \<lparr>file_name = ''scan.pdf'', file_type = ''application/pdf'',
                                    file_doc = Some 3\<rparr>,
                        trim_name = ''scan.pdf'', trim_pageCount = 3\<rparr>,
       cutPoints = [2, 3], deletedPages = {||}, rotations = Mapping.empty, error = None\<rparr>)) = None
   \<and> buildRanges 3 [2, 3] {||} = buildRanges 3 [2] {||}
   \<and> buildRanges 3 [2, 3] {||} = [[1, 2], [3]]
   \<and> snd (processTrim
      \<lparr>files = [],
       trimFile = Some \<lparr>trim_file = \<lparr>file_name = ''scan.pdf'', file_type = ''application/pdf'',
                                    file_doc = Some 3\<rparr>,
                        trim_name = ''scan.pdf'', trim_pageCount = 3\<rparr>,
       cutPoints = [2], deletedPages = {|1, 2, 3|}, rotations = Mapping.empty,
       error = None\<rparr>) = []"
proof -
  let ?tf = "\<lparr>trim_file = \<lparr>file_name = ''scan.pdf'', file_type = ''application/pdf'',
                            file_doc = Some 3\<rparr>,
                trim_name = ''scan.pdf'', trim_pageCount = 3\<rparr>"
  let ?st = "\<lparr>files = [], trimFile = Some ?tf,
       cutPoints = [2, 3], deletedPages = {||}, rotations = Mapping.empty, error = None\<rparr>"
  let ?st' = "\<lparr>files = [], trimFile = Some ?tf,
       cutPoints = [2], deletedPages = {|1, 2, 3|}, rotations = Mapping.empty, error = None\<rparr>"
  have h1: "trimFile ?st = Some ?tf" by simp
  have h2: "file_doc (trim_file ?tf) = Some (trim_pageCount ?tf)" by simp
  have h3: "hasModifications ?st" by code_simp
  note t = partition_no_validation [OF h1 h2 h3]
  from t have a: "error (fst (processTrim ?st)) = None" by blast
  from t have "\<forall>c. c < 1 \<or> int c > int (trim_pageCount ?tf) - 1 \<longrightarrow>
          buildRanges (trim_pageCount ?tf) (cutPoints ?st) (deletedPages ?st)
            = buildRanges (trim_pageCount ?tf) (removeAll c (cutPoints ?st)) (deletedPages ?st)"
    by blast
  then have "(3::nat) < 1 \<or> int 3 > int (trim_pageCount ?tf) - 1 \<longrightarrow>
          buildRanges (trim_pageCount ?tf) (cutPoints ?st) (deletedPages ?st)
            = buildRanges (trim_pageCount ?tf) (removeAll 3 (cutPoints ?st)) (deletedPages ?st)"
    by (rule spec)
  then have b: "buildRanges 3 [2, 3] {||} = buildRanges 3 [2] {||}" by simp
  have c: "buildRanges 3 [2, 3] {||} = [[1, 2], [3]]" by code_simp
  have h1': "trimFile ?st' = Some ?tf" by simp
  have h3': "hasModifications ?st'" by code_simp
  have gone: "\<forall>p. 1 \<le> p \<and> p \<le> trim_pageCount ?tf \<longrightarrow> p |\<in>| deletedPages ?st'"
    by auto
  have cut: "cutPoints ?st' \<noteq> []" by simp
  from partition_no_validation [OF h1' h2 h3'] gone cut
  have d: "snd (processTrim ?st') = []" by blast
  from a b c d show ?thesis by blast
qed

section \<open>Properties of merge mode\<close>

lemma mergeLoop_loaded:
  "map (\<lambda>f. file_doc (pdf_file f)) fs = map Some ns \<Longrightarrow>
   mergeLoop fs k merged = Some (merged @ concat (map copiedPages (enumerate k ns)))"
proof (induction fs arbitrary: k merged ns)
  case Nil
  then show ?case by simp
next
  case (Cons f fs)
  then obtain n ns' where ns: "ns = n # ns'" by (cases ns) auto
  with Cons.prems have f: "file_doc (pdf_file f) = Some n"
    and rest: "map (\<lambda>f. file_doc (pdf_file f)) fs = map Some ns'" by simp_all
  from Cons.IH [OF rest] f show ?case by (simp add: ns copiedPages_def)
qed

lemma mergeLoop_unloadable:
  "\<exists>f\<in>set fs. file_doc (pdf_file f) = None \<Longrightarrow> mergeLoop fs k merged = None"
  by (induction fs arbitrary: k merged) (auto split: option.splits)

lemma mergeLoop_Some_loaded:
  assumes "mergeLoop fs k merged = Some out"
  shows "\<forall>f\<in>set fs. file_doc (pdf_file f) \<noteq> None"
proof
  fix f assume f: "f \<in> set fs"
  note run = assms
  show "file_doc (pdf_file f) \<noteq> None"
  proof
    assume "file_doc (pdf_file f) = None"
    with f have "\<exists>f\<in>set fs. file_doc (pdf_file f) = None" by blast
    from mergeLoop_unloadable [OF this, of k merged] run show False by simp
  qed
qed

lemma length_concat_copiedPages:
  "length (concat (map copiedPages (enumerate k ns))) = sum_list ns"
  by (induction ns arbitrary: k) (simp_all add: copiedPages_def)

lemma ordinals_copiedPages:
  "map (\<lambda>p. (fst p, snd p + 1)) (concat (map copiedPages (enumerate k ns)))
     = concat (map (\<lambda>jn. map (\<lambda>p. (fst jn, p)) [1..<Suc (snd jn)]) (enumerate k ns))"
proof -
  have "map (\<lambda>p. (fst p, snd p + 1)) (copiedPages jn) = map (\<lambda>p. (fst jn, p)) [1..<Suc (snd jn)]" for jn
  proof -
    have "map (\<lambda>p. (fst p, snd p + 1)) (copiedPages jn) = map (\<lambda>p. (fst jn, p)) (map Suc [0..<snd jn])"
      by (simp add: copiedPages_def comp_def)
    also have "map Suc [0..<snd jn] = [1..<Suc (snd jn)]"
      using map_Suc_upt [of 0 "snd jn"] by simp
    finally show ?thesis .
  qed
  then show ?thesis by (simp add: map_concat comp_def)
qed

text \<open>
  C4 (merge is concatenation). For a queue of at least two sources whose page counts, as
  recorded when they were added, are \<open>ns\<close>, \<open>mergePDFs\<close> downloads one document whose
  pages are, source after source in the order of the queue, the pages of that source from
  the first to the last: read as ordinals, \<open>1\<close> to its page count. Nothing is dropped or
  reordered, and the number of pages is the sum of the page counts.
\<close>

theorem merge_is_concatenation:
  assumes "2 \<le> length (files st)"
    and "\<forall>f\<in>set (files st). pdf_pageCount f = getPageCount (pdf_file f)"
    and "map pdf_pageCount (files st) = map Some ns"
  shows "map pages (snd (mergePDFs now st)) = [concat (map copiedPages (enumerate 0 ns))]
    \<and> map (map (\<lambda>p. (fst p, snd p + 1)) \<circ> pages) (snd (mergePDFs now st))
        = [concat (map (\<lambda>jn. map (\<lambda>p. (fst jn, p)) [1..<Suc (snd jn)]) (enumerate 0 ns))]
    \<and> map (length \<circ> pages) (snd (mergePDFs now st)) = [sum_list ns]"
proof -
  let ?P = "concat (map copiedPages (enumerate 0 ns))"
  have "map (\<lambda>f. file_doc (pdf_file f)) (files st) = map pdf_pageCount (files st)"
    using assms(2) by (simp add: getPageCount_def)
  with assms(3) have docs: "map (\<lambda>f. file_doc (pdf_file f)) (files st) = map Some ns" by simp
  from mergeLoop_loaded [OF docs, of 0 "[]"] assms(1)
  have out: "snd (mergePDFs now st)
      = [\<lparr>download = ''merged-'' @ decimal now @ ''.pdf'', pages = ?P\<rparr>]"
    by (simp add: mergePDFs_def)
  have a: "map pages (snd (mergePDFs now st)) = [?P]" by (simp add: out)
  have "map (map (\<lambda>p. (fst p, snd p + 1)) \<circ> pages) (snd (mergePDFs now st))
      = [map (\<lambda>p. (fst p, snd p + 1)) ?P]"
    by (simp add: out del: map_concat)
  also have "\<dots> = [concat (map (\<lambda>jn. map (\<lambda>p. (fst jn, p)) [1..<Suc (snd jn)]) (enumerate 0 ns))]"
    by (simp only: ordinals_copiedPages)
  finally have b: "map (map (\<lambda>p. (fst p, snd p + 1)) \<circ> pages) (snd (mergePDFs now st))
      = [concat (map (\<lambda>jn. map (\<lambda>p. (fst jn, p)) [1..<Suc (snd jn)]) (enumerate 0 ns))]" .
  have "map (length \<circ> pages) (snd (mergePDFs now st)) = [length ?P]"
    by (simp add: out del: length_concat)
  then have c: "map (length \<circ> pages) (snd (mergePDFs now st)) = [sum_list ns]"
    by (simp only: length_concat_copiedPages)
  from a b c show ?thesis by blast
qed

theorem merge_is_concatenation_witness:
  "map pages (snd (mergePDFs 0
     \<lparr>files = [\<lparr>pdf_id = ''a'', pdf_file = \<lparr>file_name = ''a.pdf'', file_type = ''application/pdf'',
                                           file_doc = Some 3\<rparr>,
                 pdf_name = ''a.pdf'', pdf_pageCount = Some 3\<rparr>,
                \<lparr>pdf_id = ''b'', pdf_file = \<lparr>file_name = ''b.pdf'', file_type = ''application/pdf'',
                                           file_doc = Some 2\<rparr>,
                 pdf_name = ''b.pdf'', pdf_pageCount = Some 2\<rparr>],
      trimFile = None, cutPoints = [], deletedPages = {||}, rotations = Mapping.empty,
      error = None\<rparr>))
   = [[(0, 0), (0, 1), (0, 2), (1, 0), (1, 1)]]"
proof -
  let ?a = "\<lparr>pdf_id = ''a'', pdf_file = \<lparr>file_name = ''a.pdf'', file_type = ''application/pdf'',
                                           file_doc = Some 3\<rparr>,
                 pdf_name = ''a.pdf'', pdf_pageCount = Some 3\<rparr>"
  let ?b = "\<lparr>pdf_id = ''b'', pdf_file = \<lparr>file_name = ''b.pdf'', file_type = ''application/pdf'',
                                           file_doc = Some 2\<rparr>,
                 pdf_name = ''b.pdf'', pdf_pageCount = Some 2\<rparr>"
  let ?st = "\<lparr>files = [?a, ?b],
      trimFile = None, cutPoints = [], deletedPages = {||}, rotations = Mapping.empty,
      error = None\<rparr>"
  have h1: "2 \<le> length (files ?st)" by simp
  have h2: "\<forall>f\<in>set (files ?st). pdf_pageCount f = getPageCount (pdf_file f)"
    by (simp add: getPageCount_def)
  have h3: "map pdf_pageCount (files ?st) = map Some [3, 2]" by simp
  have v: "concat (map copiedPages (enumerate 0 [3, 2])) = [(0, 0), (0, 1), (0, 2), (1, 0), (1, 1)]"
    by code_simp
  from merge_is_concatenation [OF h1 h2 h3, of 0]
  have "map pages (snd (mergePDFs 0 ?st)) = [concat (map copiedPages (enumerate 0 [3, 2]))]"
    by blast
  then show ?thesis by (simp only: v)
qed

lemma addFiles_files:
  "files (addFiles newId st offered) =
     files st @ map (processFile newId)
       (enumerate 0 (slice0 (filter isPdf offered) (int MAX_FILES - int (length (files st)))))"
  by (simp add: addFiles_def Let_def slice0_def)

lemma slice0_take: "0 \<le> e \<Longrightarrow> slice0 xs e = take (nat e) xs"
  by (simp add: slice0_def)

lemma pdf_file_processFile:
  "map pdf_file (map (processFile newId) (enumerate k fs)) = fs"
proof -
  have "map pdf_file (map (processFile newId) (enumerate k fs)) = map snd (enumerate k fs)"
    by (simp add: processFile_def comp_def)
  then show ?thesis by simp
qed

lemma pageCount_processFile:
  "f \<in> set (map (processFile newId) xs) \<Longrightarrow> pdf_pageCount f = getPageCount (pdf_file f)"
  by (auto simp: processFile_def)

lemma addFiles_recorded:
  assumes "\<forall>f\<in>set (files st). pdf_pageCount f = getPageCount (pdf_file f)"
  shows "\<forall>f\<in>set (files (addFiles newId st offered)). pdf_pageCount f = getPageCount (pdf_file f)"
  using assms pageCount_processFile unfolding addFiles_files by (metis Un_iff set_append)

text \<open>
  C10 (truncation at the limit). With \<open>m < 5\<close> files in the queue and \<open>k\<close> of the offered
  files passing the PDF test, \<open>addFiles\<close> appends the first \<open>min k (5 - m)\<close> of them, in
  the order offered, behind the \<open>m\<close> files already there, which stay as they are. The
  others are not added, and when there are others the only trace is the message.
\<close>

theorem addFiles_truncates:
  assumes "length (files st) < MAX_FILES"
  shows "MAX_FILES = 5
    \<and> files (addFiles newId st offered)
        = files st @ map (processFile newId)
            (enumerate 0 (take (min (length (filter isPdf offered)) (MAX_FILES - length (files st)))
                            (filter isPdf offered)))
    \<and> take (length (files st)) (files (addFiles newId st offered)) = files st
    \<and> map pdf_file (drop (length (files st)) (files (addFiles newId st offered)))
        = take (min (length (filter isPdf offered)) (MAX_FILES - length (files st)))
            (filter isPdf offered)
    \<and> length (files (addFiles newId st offered))
        = length (files st) + min (length (filter isPdf offered)) (MAX_FILES - length (files st))
    \<and> (MAX_FILES - length (files st) < length (filter isPdf offered) \<longrightarrow>
          error (addFiles newId st offered)
            = Some (slotsMessage (int MAX_FILES - int (length (files st)))))
    \<and> addFiles newId st offered
        = st\<lparr>error := error (addFiles newId st offered),
             files := files (addFiles newId st offered)\<rparr>"
proof -
  let ?pdfs = "filter isPdf offered"
  let ?m = "length (files st)"
  let ?q = "take (min (length ?pdfs) (MAX_FILES - ?m)) ?pdfs"
  have sl: "slice0 ?pdfs (int MAX_FILES - int ?m) = ?q"
    using assms by (simp add: slice0_take nat_diff_distrib' min_def)
  have a: "files (addFiles newId st offered) = files st @ map (processFile newId) (enumerate 0 ?q)"
    by (simp only: addFiles_files sl)
  have b: "take ?m (files (addFiles newId st offered)) = files st" by (simp add: a)
  have c: "map pdf_file (drop ?m (files (addFiles newId st offered))) = ?q"
    by (simp add: a pdf_file_processFile del: map_map)
  have d: "length (files (addFiles newId st offered)) = ?m + min (length ?pdfs) (MAX_FILES - ?m)"
    by (simp add: a)
  have e: "MAX_FILES - ?m < length ?pdfs \<longrightarrow>
          error (addFiles newId st offered) = Some (slotsMessage (int MAX_FILES - int ?m))"
    using assms by (auto simp: addFiles_def Let_def)
  have f: "addFiles newId st offered
        = st\<lparr>error := error (addFiles newId st offered),
             files := files (addFiles newId st offered)\<rparr>"
    by (simp add: addFiles_def Let_def)
  have g: "MAX_FILES = 5" by (simp add: MAX_FILES_def)
  from g a b c d e f show ?thesis by blast
qed

theorem addFiles_truncates_witness:
  "map pdf_name (files (addFiles decimal
      \<lparr>files = replicate 4 \<lparr>pdf_id = ''x'', pdf_file = \<lparr>file_name = ''x.pdf'', file_type = [],
                                                         file_doc = Some 2\<rparr>,
                               pdf_name = ''x.pdf'', pdf_pageCount = Some 2\<rparr>,
       trimFile = None, cutPoints = [], deletedPages = {||}, rotations = Mapping.empty,
       error = None\<rparr>
      [\<lparr>file_name = ''notes.txt'', file_type = ''text/plain'', file_doc = None\<rparr>,
       \<lparr>file_name = ''p.PDF'', file_type = [], file_doc = Some 7\<rparr>,
       \<lparr>file_name = ''q'', file_type = ''application/pdf'', file_doc = Some 1\<rparr>]))
     = [''x.pdf'', ''x.pdf'', ''x.pdf'', ''x.pdf'', ''p.PDF'']
   \<and> error (addFiles decimal
      \<lparr>files = replicate 4 \<lparr>pdf_id = ''x'', pdf_file = \<lparr>file_name = ''x.pdf'', file_type = [],
                                                         file_doc = Some 2\<rparr>,
                               pdf_name = ''x.pdf'', pdf_pageCount = Some 2\<rparr>,
       trimFile = None, cutPoints = [], deletedPages = {||}, rotations = Mapping.empty,
       error = None\<rparr>
      [\<lparr>file_name = ''notes.txt'', file_type = ''text/plain'', file_doc = None\<rparr>,
       \<lparr>file_name = ''p.PDF'', file_type = [], file_doc = Some 7\<rparr>,
       \<lparr>file_name = ''q'', file_type = ''application/pdf'', file_doc = Some 1\<rparr>])
     = Some ''Only 1 more file can be added''"
proof -
  let ?x = "\<lparr>pdf_id = ''x'', pdf_file = \<lparr>file_name = ''x.pdf'', file_type = [],
                                        file_doc = Some 2\<rparr>,
              pdf_name = ''x.pdf'', pdf_pageCount = Some 2\<rparr>"
  let ?st = "\<lparr>files = replicate 4 ?x,
       trimFile = None, cutPoints = [], deletedPages = {||}, rotations = Mapping.empty,
       error = None\<rparr>"
  let ?p = "\<lparr>file_name = ''p.PDF'', file_type = [], file_doc = Some 7\<rparr>"
  let ?q = "\<lparr>file_name = ''q'', file_type = ''application/pdf'', file_doc = Some 1\<rparr>"
  let ?off = "[\<lparr>file_name = ''notes.txt'', file_type = ''text/plain'', file_doc = None\<rparr>, ?p, ?q]"
  have h: "length (files ?st) < MAX_FILES" by (simp add: MAX_FILES_def)
  note t = addFiles_truncates [OF h, of decimal ?off]
  have pd: "filter isPdf ?off = [?p, ?q]" by code_simp
  have sl: "MAX_FILES - length (files ?st) = 1" by (simp add: MAX_FILES_def)
  from t have "files (addFiles decimal ?st ?off)
        = files ?st @ map (processFile decimal)
            (enumerate 0 (take (min (length (filter isPdf ?off)) (MAX_FILES - length (files ?st)))
                            (filter isPdf ?off)))" by blast
  then have "files (addFiles decimal ?st ?off)
        = replicate 4 ?x @ map (processFile decimal) (enumerate 0 [?p])"
    by (simp only: pd sl) simp
  then have a: "map pdf_name (files (addFiles decimal ?st ?off))
      = [''x.pdf'', ''x.pdf'', ''x.pdf'', ''x.pdf'', ''p.PDF'']"
    by (simp add: processFile_def numeral_eq_Suc)
  from t have "MAX_FILES - length (files ?st) < length (filter isPdf ?off) \<longrightarrow>
          error (addFiles decimal ?st ?off)
            = Some (slotsMessage (int MAX_FILES - int (length (files ?st))))" by blast
  moreover have "MAX_FILES - length (files ?st) < length (filter isPdf ?off)"
    by (simp only: pd sl) simp
  ultimately have "error (addFiles decimal ?st ?off)
      = Some (slotsMessage (int MAX_FILES - int (length (files ?st))))" by blast
  moreover have "slotsMessage (int MAX_FILES - int (length (files ?st)))
      = ''Only 1 more file can be added''" by code_simp
  ultimately have b: "error (addFiles decimal ?st ?off) = Some ''Only 1 more file can be added''"
    by simp
  from a b show ?thesis by (rule conjI)
qed

text \<open>
  C6 (page counts at the merge), as the claim states it: a source whose page count could
  not be determined never reaches the merge. It does: \<open>addFiles\<close> puts a file that does not
  decode in the queue with the page count \<open>null\<close>, and the merge over that queue runs into
  it and ends in the \<open>catch\<close>.
\<close>

theorem merge_page_counts_counterexample:
  "map pdf_pageCount (files (addFiles decimal
      \<lparr>files = [], trimFile = None, cutPoints = [], deletedPages = {||},
       rotations = Mapping.empty, error = None\<rparr>
      [\<lparr>file_name = ''a.pdf'', file_type = ''application/pdf'', file_doc = Some 3\<rparr>,
       \<lparr>file_name = ''b.pdf'', file_type = ''application/pdf'', file_doc = None\<rparr>]))
     = [Some 3, None]
   \<and> snd (mergePDFs 0 (addFiles decimal
      \<lparr>files = [], trimFile = None, cutPoints = [], deletedPages = {||},
       rotations = Mapping.empty, error = None\<rparr>
      [\<lparr>file_name = ''a.pdf'', file_type = ''application/pdf'', file_doc = Some 3\<rparr>,
       \<lparr>file_name = ''b.pdf'', file_type = ''application/pdf'', file_doc = None\<rparr>])) = []
   \<and> error (fst (mergePDFs 0 (addFiles decimal
      \<lparr>files = [], trimFile = None, cutPoints = [], deletedPages = {||},
       rotations = Mapping.empty, error = None\<rparr>
      [\<lparr>file_name = ''a.pdf'', file_type = ''application/pdf'', file_doc = Some 3\<rparr>,
       \<lparr>file_name = ''b.pdf'', file_type = ''application/pdf'', file_doc = None\<rparr>])))
     = Some ''Failed to merge PDFs. Some files may be corrupted or encrypted.''"
  by code_simp

text \<open>
  C6, amended. \<open>addFiles\<close> excludes no file for its page count: each file it adds is
  recorded with the page count the decoder reported, \<open>null\<close> when there is none. When
  the merge runs on a queue that holds a source without a page count, it fails with the
  merge message and downloads nothing; so whenever the merge downloads a document, every
  source it consumed has a known page count.
\<close>

theorem merge_page_counts:
  assumes "\<forall>f\<in>set (files st). pdf_pageCount f = getPageCount (pdf_file f)"
  shows "(\<forall>f\<in>set (files (addFiles newId st offered)).
            pdf_pageCount f = getPageCount (pdf_file f))
    \<and> map pdf_pageCount (drop (length (files st)) (files (addFiles newId st offered)))
        = map getPageCount
            (slice0 (filter isPdf offered) (int MAX_FILES - int (length (files st))))
    \<and> (2 \<le> length (files st) \<and> (\<exists>f\<in>set (files st). pdf_pageCount f = None) \<longrightarrow>
          mergePDFs now st = (mergeFailed st, []))
    \<and> (snd (mergePDFs now st) \<noteq> [] \<longrightarrow> (\<forall>f\<in>set (files st). pdf_pageCount f \<noteq> None))"
proof -
  have a: "\<forall>f\<in>set (files (addFiles newId st offered)).
            pdf_pageCount f = getPageCount (pdf_file f)"
    using assms by (rule addFiles_recorded)
  have "map pdf_pageCount (map (processFile newId) (enumerate 0 xs)) = map getPageCount xs" for xs
  proof -
    have "map pdf_pageCount (map (processFile newId) (enumerate 0 xs))
        = map (getPageCount \<circ> snd) (enumerate 0 xs)"
      by (simp add: processFile_def comp_def)
    also have "\<dots> = map getPageCount (map snd (enumerate 0 xs))"
      by (simp only: map_map)
    finally show ?thesis by simp
  qed
  then have b: "map pdf_pageCount (drop (length (files st)) (files (addFiles newId st offered)))
        = map getPageCount
            (slice0 (filter isPdf offered) (int MAX_FILES - int (length (files st))))"
    by (simp add: addFiles_files del: map_map)
  have c: "mergePDFs now st = (mergeFailed st, [])"
    if "2 \<le> length (files st) \<and> (\<exists>f\<in>set (files st). pdf_pageCount f = None)"
  proof -
    from that assms have "\<exists>f\<in>set (files st). file_doc (pdf_file f) = None"
      by (auto simp: getPageCount_def)
    from mergeLoop_unloadable [OF this, of 0 "[]"] that show ?thesis
      by (simp add: mergePDFs_def)
  qed
  have d: "\<forall>f\<in>set (files st). pdf_pageCount f \<noteq> None" if "snd (mergePDFs now st) \<noteq> []"
  proof -
    from that obtain merged where "mergeLoop (files st) 0 [] = Some merged"
      by (auto simp: mergePDFs_def split: if_splits option.splits)
    from mergeLoop_Some_loaded [OF this] assms show ?thesis
      by (simp add: getPageCount_def)
  qed
  from a b c d show ?thesis by blast
qed

theorem merge_page_counts_witness:
  "mergePDFs 0
      \<lparr>files = [\<lparr>pdf_id = ''0'', pdf_file = \<lparr>file_name = ''a.pdf'', file_type = ''application/pdf'',
                                             file_doc = Some 3\<rparr>,
                  pdf_name = ''a.pdf'', pdf_pageCount = Some 3\<rparr>,
                 \<lparr>pdf_id = ''1'', pdf_file = \<lparr>file_name = ''b.pdf'', file_type = ''application/pdf'',
                                             file_doc = None\<rparr>,
                  pdf_name = ''b.pdf'', pdf_pageCount = None\<rparr>],
       trimFile = None, cutPoints = [], deletedPages = {||}, rotations = Mapping.empty,
       error = None\<rparr>
    = (\<lparr>files = [\<lparr>pdf_id = ''0'', pdf_file = \<lparr>file_name = ''a.pdf'', file_type = ''application/pdf'',
                                             file_doc = Some 3\<rparr>,
                  pdf_name = ''a.pdf'', pdf_pageCount = Some 3\<rparr>,
                 \<lparr>pdf_id = ''1'', pdf_file = \<lparr>file_name = ''b.pdf'', file_type = ''application/pdf'',
                                             file_doc = None\<rparr>,
                  pdf_name = ''b.pdf'', pdf_pageCount = None\<rparr>],
       trimFile = None, cutPoints = [], deletedPages = {||}, rotations = Mapping.empty,
       error = Some ''Failed to merge PDFs. Some files may be corrupted or encrypted.''\<rparr>, [])
   \<and> (snd (mergePDFs 0
      \<lparr>files = [\<lparr>pdf_id = ''0'', pdf_file = \<lparr>file_name = ''a.pdf'', file_type = ''application/pdf'',
                                             file_doc = Some 3\<rparr>,
                  pdf_name = ''a.pdf'', pdf_pageCount = Some 3\<rparr>,
                 \<lparr>pdf_id = ''0'', pdf_file = \<lparr>file_name = ''a.pdf'', file_type = ''application/pdf'',
                                             file_doc = Some 3\<rparr>,
                  pdf_name = ''a.pdf'', pdf_pageCount = Some 3\<rparr>],
       trimFile = None, cutPoints = [], deletedPages = {||}, rotations = Mapping.empty,
       error = None\<rparr>) \<noteq> []
      \<and> pdf_pageCount \<lparr>pdf_id = ''0'', pdf_file = \<lparr>file_name = ''a.pdf'',
                           file_type = ''application/pdf'', file_doc = Some 3\<rparr>,
                        pdf_name = ''a.pdf'', pdf_pageCount = Some 3\<rparr> \<noteq> None)"
proof -
  let ?a = "\<lparr>pdf_id = ''0'', pdf_file = \<lparr>file_name = ''a.pdf'', file_type = ''application/pdf'',
                                        file_doc = Some 3\<rparr>,
              pdf_name = ''a.pdf'', pdf_pageCount = Some 3\<rparr>"
  let ?b = "\<lparr>pdf_id = ''1'', pdf_file = \<lparr>file_name = ''b.pdf'', file_type = ''application/pdf'',
                                        file_doc = None\<rparr>,
              pdf_name = ''b.pdf'', pdf_pageCount = None\<rparr>"
  let ?st = "\<lparr>files = [?a, ?b],
       trimFile = None, cutPoints = [], deletedPages = {||}, rotations = Mapping.empty,
       error = None\<rparr>"
  let ?st' = "\<lparr>files = [?a, ?a],
       trimFile = None, cutPoints = [], deletedPages = {||}, rotations = Mapping.empty,
       error = None\<rparr>"
  have h: "\<forall>f\<in>set (files ?st). pdf_pageCount f = getPageCount (pdf_file f)"
    by (simp add: getPageCount_def)
  have g: "2 \<le> length (files ?st) \<and> (\<exists>f\<in>set (files ?st). pdf_pageCount f = None)"
    by simp
  from merge_page_counts [OF h, where now = 0] g
  have "mergePDFs 0 ?st = (mergeFailed ?st, [])" by blast
  then have a: "mergePDFs 0 ?st
      = (?st\<lparr>error := Some ''Failed to merge PDFs. Some files may be corrupted or encrypted.''\<rparr>, [])"
    by (simp only: mergeFailed_def)
  have h': "\<forall>f\<in>set (files ?st'). pdf_pageCount f = getPageCount (pdf_file f)"
    by (simp add: getPageCount_def)
  have ne: "snd (mergePDFs 0 ?st') \<noteq> []" by code_simp
  from merge_page_counts [OF h', where now = 0] ne
  have "\<forall>f\<in>set (files ?st'). pdf_pageCount f \<noteq> None" by blast
  then have "pdf_pageCount ?a \<noteq> None" by simp
  with ne have b: "snd (mergePDFs 0 ?st') \<noteq> [] \<and> pdf_pageCount ?a \<noteq> None" by (rule conjI)
  from a b show ?thesis by simp
qed

section \<open>Properties of the edits\<close>

text \<open>
  C8 (deletion floor). For a loaded document of \<open>n\<close> pages with \<open>n - 1\<close> pages deleted,
  the toggle on a page that is not deleted sets the message and leaves \<open>deletedPages\<close>,
  and the rest of the state, as it was. Hence every toggle, deleting or restoring, keeps
  the number of deleted pages at \<open>n - 1\<close> or below.
\<close>

theorem deletion_floor:
  assumes "trimFile st = Some tf"
  shows "(int (fcard (deletedPages st)) = int (trim_pageCount tf) - 1 \<and> p |\<notin>| deletedPages st \<longrightarrow>
            toggleDeletePage st p = st\<lparr>error := Some ''Cannot delete all pages''\<rparr>
            \<and> deletedPages (toggleDeletePage st p) = deletedPages st)
    \<and> (int (fcard (deletedPages st)) \<le> int (trim_pageCount tf) - 1 \<longrightarrow>
            int (fcard (deletedPages (toggleDeletePage st q))) \<le> int (trim_pageCount tf) - 1)"
proof -
  have a: "toggleDeletePage st p = st\<lparr>error := Some ''Cannot delete all pages''\<rparr>
            \<and> deletedPages (toggleDeletePage st p) = deletedPages st"
    if "int (fcard (deletedPages st)) = int (trim_pageCount tf) - 1 \<and> p |\<notin>| deletedPages st"
    using that assms by (simp add: toggleDeletePage_def)
  have b: "int (fcard (deletedPages (toggleDeletePage st q))) \<le> int (trim_pageCount tf) - 1"
    if le: "int (fcard (deletedPages st)) \<le> int (trim_pageCount tf) - 1"
  proof (cases "q |\<in>| deletedPages st")
    case True
    have "fcard (deletedPages st |-| {|q|}) \<le> fcard (deletedPages st)"
      by (rule fcard_fminus1_le)
    with True le show ?thesis by (simp add: toggleDeletePage_def)
  next
    case False
    show ?thesis
    proof (cases "int (fcard (deletedPages st)) \<ge> int (trim_pageCount tf) - 1")
      case True
      with False assms le show ?thesis by (simp add: toggleDeletePage_def)
    next
      case full: False
      have "fcard (finsert q (deletedPages st)) = Suc (fcard (deletedPages st))"
        using False by (simp add: fcard_finsert_disjoint)
      with False full assms show ?thesis by (simp add: toggleDeletePage_def)
    qed
  qed
  from a b show ?thesis by blast
qed

theorem deletion_floor_witness:
  "toggleDeletePage
      \<lparr>files = [],
       trimFile = Some \<lparr>trim_file = \<lparr>file_name = ''scan.pdf'', file_type = ''application/pdf'',
                                    file_doc = Some 3\<rparr>,
                        trim_name = ''scan.pdf'', trim_pageCount = 3\<rparr>,
       cutPoints = [], deletedPages = {|2, 3|}, rotations = Mapping.empty, error = None\<rparr> 1
    = \<lparr>files = [],
       trimFile = Some \<lparr>trim_file = \<lparr>file_name = ''scan.pdf'', file_type = ''application/pdf'',
                                    file_doc = Some 3\<rparr>,
                        trim_name = ''scan.pdf'', trim_pageCount = 3\<rparr>,
       cutPoints = [], deletedPages = {|2, 3|}, rotations = Mapping.empty,
       error = Some ''Cannot delete all pages''\<rparr>
   \<and> int (fcard (deletedPages (toggleDeletePage
      \<lparr>files = [],
       trimFile = Some \<lparr>trim_file = \<lparr>file_name = ''scan.pdf'', file_type = ''application/pdf'',
                                    file_doc = Some 3\<rparr>,
                        trim_name = ''scan.pdf'', trim_pageCount = 3\<rparr>,
       cutPoints = [], deletedPages = {|2, 3|}, rotations = Mapping.empty, error = None\<rparr> 3)))
     \<le> 2"
proof -
  let ?tf = "\<lparr>trim_file = \<lparr>file_name = ''scan.pdf'', file_type = ''application/pdf'',
                            file_doc = Some 3\<rparr>,
                trim_name = ''scan.pdf'', trim_pageCount = 3\<rparr>"
  let ?st = "\<lparr>files = [], trimFile = Some ?tf,
       cutPoints = [], deletedPages = {|2, 3|}, rotations = Mapping.empty, error = None\<rparr>"
  have h: "trimFile ?st = Some ?tf" by simp
  have c: "fcard {|2, 3::nat|} = 2" by code_simp
  have g1: "int (fcard (deletedPages ?st)) = int (trim_pageCount ?tf) - 1
      \<and> 1 |\<notin>| deletedPages ?st" by (simp add: c)
  have g2: "int (fcard (deletedPages ?st)) \<le> int (trim_pageCount ?tf) - 1" by (simp add: c)
  from deletion_floor [OF h, of 1 3] g1
  have "toggleDeletePage ?st 1 = ?st\<lparr>error := Some ''Cannot delete all pages''\<rparr>" by blast
  then have a: "toggleDeletePage ?st 1
      = \<lparr>files = [], trimFile = Some ?tf, cutPoints = [], deletedPages = {|2, 3|},
         rotations = Mapping.empty, error = Some ''Cannot delete all pages''\<rparr>" by simp
  from deletion_floor [OF h, of 1 3] g2
  have "int (fcard (deletedPages (toggleDeletePage ?st 3))) \<le> int (trim_pageCount ?tf) - 1"
    by blast
  then have b: "int (fcard (deletedPages (toggleDeletePage ?st 3))) \<le> 2" by simp
  from a b show ?thesis by (rule conjI)
qed

lemma quarterTurns_lookup:
  "quarterTurns m \<longleftrightarrow> (\<forall>q r. Mapping.lookup m q = Some r \<longrightarrow> r \<in> {90, 180, 270})"
proof
  assume qt: "quarterTurns m"
  show "\<forall>q r. Mapping.lookup m q = Some r \<longrightarrow> r \<in> {90, 180, 270}"
  proof (intro allI impI)
    fix q r assume l: "Mapping.lookup m q = Some r"
    then have "q \<in> Mapping.keys m" by (simp add: keys_dom_lookup domI)
    with qt have "rotationOf m q \<in> {90, 180, 270}" by (simp add: quarterTurns_def)
    with l show "r \<in> {90, 180, 270}" by (simp add: rotationOf_def)
  qed
next
  assume a: "\<forall>q r. Mapping.lookup m q = Some r \<longrightarrow> r \<in> {90, 180, 270}"
  show "quarterTurns m"
    unfolding quarterTurns_def
  proof
    fix q assume "q \<in> Mapping.keys m"
    then obtain r where l: "Mapping.lookup m q = Some r" by (auto simp: keys_dom_lookup)
    with a have "r \<in> {90, 180, 270}" by blast
    with l show "rotationOf m q \<in> {90, 180, 270}" by (simp add: rotationOf_def)
  qed
qed

lemma quarterTurns_rotationOf:
  assumes "quarterTurns m"
  shows "rotationOf m p \<in> {0, 90, 180, 270}"
    and "Mapping.lookup m p = (if rotationOf m p = 0 then None else Some (rotationOf m p))"
proof -
  show "rotationOf m p \<in> {0, 90, 180, 270}"
  proof (cases "Mapping.lookup m p")
    case None
    then show ?thesis by (simp add: rotationOf_def)
  next
    case (Some r)
    with assms have "r \<in> {90, 180, 270}" by (simp add: quarterTurns_lookup)
    with Some show ?thesis by (simp add: rotationOf_def)
  qed
  show "Mapping.lookup m p = (if rotationOf m p = 0 then None else Some (rotationOf m p))"
  proof (cases "Mapping.lookup m p")
    case None
    then show ?thesis by (simp add: rotationOf_def)
  next
    case (Some r)
    with assms have "r \<in> {90, 180, 270}" by (simp add: quarterTurns_lookup)
    with Some show ?thesis by (auto simp: rotationOf_def)
  qed
qed

lemma lookup_rotateEntry:
  "Mapping.lookup (rotateEntry m p) q =
     (if q = p
      then (if (rotationOf m p + 90) mod 360 = 0 then None
            else Some ((rotationOf m p + 90) mod 360))
      else Mapping.lookup m q)"
  by (simp add: rotateEntry_def Let_def Mapping.lookup_update' Mapping.lookup_delete)

lemma rotationOf_rotateEntry:
  "rotationOf (rotateEntry m p) p = (rotationOf m p + 90) mod 360"
  by (simp add: rotationOf_def [of "rotateEntry m p"] lookup_rotateEntry)

lemma quarterTurns_rotateEntry:
  assumes "quarterTurns m"
  shows "quarterTurns (rotateEntry m p)"
proof -
  from quarterTurns_rotationOf(1) [OF assms, of p]
  have new: "(rotationOf m p + 90) mod 360 \<in> {0, 90, 180, 270}" by auto
  have "r \<in> {90, 180, 270}" if l: "Mapping.lookup (rotateEntry m p) q = Some r" for q r
  proof (cases "q = p")
    case True
    with l have "r = (rotationOf m p + 90) mod 360" "r \<noteq> 0"
      by (auto simp: lookup_rotateEntry split: if_splits)
    with new show ?thesis by auto
  next
    case False
    with l have "Mapping.lookup m q = Some r" by (simp add: lookup_rotateEntry)
    with assms show ?thesis by (simp add: quarterTurns_lookup)
  qed
  then show ?thesis by (simp add: quarterTurns_lookup [of "rotateEntry m p"])
qed

lemma rotateEntry_four:
  assumes "quarterTurns m"
  shows "rotateEntry (rotateEntry (rotateEntry (rotateEntry m p) p) p) p = m"
proof (rule mapping_eqI)
  fix q
  let ?m3 = "rotateEntry (rotateEntry (rotateEntry m p) p) p"
  note r = quarterTurns_rotationOf [OF assms, of p]
  have "(rotationOf ?m3 p + 90) mod 360 = (rotationOf m p + 360) mod 360"
    by (simp add: rotationOf_rotateEntry mod_simps)
  also have "\<dots> = rotationOf m p" using r(1) by auto
  finally have again: "(rotationOf ?m3 p + 90) mod 360 = rotationOf m p" .
  show "Mapping.lookup (rotateEntry ?m3 p) q = Mapping.lookup m q"
  proof (cases "q = p")
    case False
    then show ?thesis by (simp add: lookup_rotateEntry)
  next
    case True
    with again r(2) show ?thesis by (simp add: lookup_rotateEntry [of ?m3])
  qed
qed

lemma quarterTurns_foldl:
  "quarterTurns (rotations st) \<Longrightarrow> quarterTurns (rotations (foldl rotatePage st ps))"
proof (induction ps arbitrary: st)
  case Nil
  then show ?case by simp
next
  case (Cons p ps)
  from Cons.prems have "quarterTurns (rotations (rotatePage st p))"
    by (simp add: rotatePage_def quarterTurns_rotateEntry)
  from Cons.IH [OF this] show ?case by simp
qed

text \<open>
  C9 (rotation composition), as the claim states it: from every rotation state, four
  rotations of a page leave that page without an entry. This fails when the page starts
  with a rotation: a page at 90 degrees is at 90 degrees again after four rotations.
\<close>

theorem rotation_four_counterexample:
  "Mapping.lookup (rotations (rotatePage (rotatePage (rotatePage (rotatePage
      \<lparr>files = [], trimFile = None, cutPoints = [], deletedPages = {||},
       rotations = Mapping.update 2 90 Mapping.empty, error = None\<rparr> 2) 2) 2) 2)) 2
   = Some 90"
  by code_simp

text \<open>
  C9, amended. In every rotation state that stores only the values 90, 180 and 270, as
  every state reached by rotations does, four rotations of a page give back the state
  as it was: the page's entry is absent again when it was absent, and has its former
  value otherwise. After any sequence of rotations from such a state, and so from the
  empty map, every stored value is 90, 180 or 270, and \<open>0\<close> is never stored.
\<close>

theorem rotation_composition:
  assumes "quarterTurns (rotations st)"
  shows "rotatePage (rotatePage (rotatePage (rotatePage st p) p) p) p = st
    \<and> (Mapping.lookup (rotations st) p = None \<longrightarrow>
          Mapping.lookup
            (rotations (rotatePage (rotatePage (rotatePage (rotatePage st p) p) p) p)) p = None)
    \<and> (\<forall>ps q r. Mapping.lookup (rotations (foldl rotatePage st ps)) q = Some r \<longrightarrow>
          r \<in> {90, 180, 270})
    \<and> quarterTurns Mapping.empty"
proof -
  have a: "rotatePage (rotatePage (rotatePage (rotatePage st p) p) p) p = st"
    using rotateEntry_four [OF assms, of p] by (simp add: rotatePage_def)
  have b: "\<forall>ps q r. Mapping.lookup (rotations (foldl rotatePage st ps)) q = Some r \<longrightarrow>
          r \<in> {90, 180, 270}"
  proof (intro allI)
    fix ps
    from quarterTurns_foldl [OF assms, of ps]
    show "\<And>q r. Mapping.lookup (rotations (foldl rotatePage st ps)) q = Some r \<longrightarrow>
          r \<in> {90, 180, 270}"
      by (simp add: quarterTurns_lookup)
  qed
  have c: "quarterTurns Mapping.empty" by (simp add: quarterTurns_def)
  from a b c show ?thesis by simp
qed

theorem rotation_composition_witness:
  "rotatePage (rotatePage (rotatePage (rotatePage
      \<lparr>files = [], trimFile = None, cutPoints = [], deletedPages = {||},
       rotations = Mapping.update 2 90 Mapping.empty, error = None\<rparr> 3) 3) 3) 3
   = \<lparr>files = [], trimFile = None, cutPoints = [], deletedPages = {||},
       rotations = Mapping.update 2 90 Mapping.empty, error = None\<rparr>
   \<and> Mapping.lookup (rotations (rotatePage (rotatePage (rotatePage (rotatePage
      \<lparr>files = [], trimFile = None, cutPoints = [], deletedPages = {||},
       rotations = Mapping.update 2 90 Mapping.empty, error = None\<rparr> 3) 3) 3) 3)) 3 = None
   \<and> Mapping.lookup (rotations (foldl rotatePage
      \<lparr>files = [], trimFile = None, cutPoints = [], deletedPages = {||},
       rotations = Mapping.update 2 90 Mapping.empty, error = None\<rparr> [2, 3, 2])) 2
     \<noteq> Some 0"
proof -
  let ?st = "\<lparr>files = [], trimFile = None, cutPoints = [], deletedPages = {||},
       rotations = Mapping.update 2 90 Mapping.empty, error = None\<rparr>"
  have "quarterTurns (Mapping.update 2 90 Mapping.empty)" by code_simp
  then have h: "quarterTurns (rotations ?st)" by simp
  note t = rotation_composition [OF h, of 3]
  from t have a: "rotatePage (rotatePage (rotatePage (rotatePage ?st 3) 3) 3) 3 = ?st"
    by (rule conjunct1)
  have n: "Mapping.lookup (rotations ?st) 3 = None" by simp
  from t n have b: "Mapping.lookup
            (rotations (rotatePage (rotatePage (rotatePage (rotatePage ?st 3) 3) 3) 3)) 3 = None"
    by blast
  from t have "\<forall>ps q r. Mapping.lookup (rotations (foldl rotatePage ?st ps)) q = Some r \<longrightarrow>
          r \<in> {90, 180, 270}" by blast
  then have "Mapping.lookup (rotations (foldl rotatePage ?st [2, 3, 2])) 2 = Some 0 \<longrightarrow>
          (0::nat) \<in> {90, 180, 270}" by blast
  then have c: "Mapping.lookup (rotations (foldl rotatePage ?st [2, 3, 2])) 2 \<noteq> Some 0"
    by auto
  from a b c show ?thesis by blast
qed

end
